theory Spec2Isabelle
  imports Complex_Main "HOL-Library.Multiset"
begin

section \<open>Python string helpers used by the analyzer\<close>

text \<open>
  A string is a list of characters, and a character is a code point below 256
  (Latin-1): the model covers the texts whose code points are all below 256, and there
  \<open>len\<close>, slicing, \<open>split\<close>, \<open>strip\<close> and \<open>lower\<close> count and act as in Python. \<open>str.split()\<close>
  (no argument) and \<open>str.strip()\<close> work on the characters of \<open>str.isspace\<close>: tab, line
  feed, vertical tab, form feed, carriage return, the separators 0x1C..0x1F, the space,
  the next-line character 0x85 and the no-break space 0xA0.
\<close>

definition is_space :: "char \<Rightarrow> bool" where
  "is_space c =
     (c = CHR 0x20 \<or> c = CHR 0x09 \<or> c = CHR 0x0A \<or> c = CHR 0x0B \<or> c = CHR 0x0C \<or>
      c = CHR 0x0D \<or> c = CHR 0x1C \<or> c = CHR 0x1D \<or> c = CHR 0x1E \<or> c = CHR 0x1F \<or>
      c = CHR 0x85 \<or> c = CHR 0xA0)"

text \<open>\<open>s.split()\<close>: the maximal runs of non-whitespace characters, in order.\<close>

fun split_acc :: "string \<Rightarrow> string \<Rightarrow> string list" where
  "split_acc w [] = (if w = [] then [] else [w])"
| "split_acc w (c # cs) =
     (if is_space c then (if w = [] then split_acc [] cs else w # split_acc [] cs)
      else split_acc (w @ [c]) cs)"

definition py_split :: "string \<Rightarrow> string list" where
  "py_split s = split_acc [] s"

text \<open>\<open>s.strip()\<close>: whitespace removed at both ends.\<close>

definition py_strip :: "string \<Rightarrow> string" where
  "py_strip s = rev (dropWhile is_space (rev (dropWhile is_space s)))"

text \<open>\<open>p in s\<close> on strings: \<open>p\<close> occurs as a contiguous substring of \<open>s\<close>.\<close>

fun py_in :: "string \<Rightarrow> string \<Rightarrow> bool" where
  "py_in p [] = (p = [])"
| "py_in p (c # cs) = (take (length p) (c # cs) = p \<or> py_in p cs)"

text \<open>\<open>s.endswith(p)\<close>.\<close>

definition endswith :: "string \<Rightarrow> string \<Rightarrow> bool" where
  "endswith s p = (length p \<le> length s \<and> drop (length s - length p) s = p)"

text \<open>\<open>sep.join(xs)\<close>.\<close>

fun py_join :: "string \<Rightarrow> string list \<Rightarrow> string" where
  "py_join sep [] = []"
| "py_join sep [x] = x"
| "py_join sep (x # y # ys) = x @ sep @ py_join sep (y # ys)"

text \<open>\<open>xs[a:b]\<close> for \<open>0 \<le> a\<close> and \<open>0 \<le> b\<close>.\<close>

definition py_slice :: "'a list \<Rightarrow> nat \<Rightarrow> nat \<Rightarrow> 'a list" where
  "py_slice xs a b = take (b - a) (drop a xs)"

section \<open>Relevance ranker: \<open>SectionExtractor.get_sections_with_content\<close>\<close>

type_synonym embedding = "real list"

text \<open>
  A section dictionary as the segmenter produces it, a document with its sections
  (\<open>doc.get("sections", [])\<close>: a document without the key has none), and the request
  model (\<open>req\<close>) with the query text and its embedding.
\<close>

record section_rec =
  section_title :: string
  content :: string
  page_number :: nat

record doc =
  filename :: string
  sections :: "section_rec list"

record req_model =
  combined_text :: string
  embedding :: embedding

text \<open>A scored candidate: \<open>{**section, "document": ..., "final_score": ...}\<close>.\<close>

record scored = section_rec +
  document :: string
  final_score :: real

definition DIVERSITY_PENALTY :: real where
  "DIVERSITY_PENALTY = 0.60"

text \<open>
  A Python dictionary built by a comprehension from a list of pairs: a key keeps the
  position of its first insertion and the value of its last.
\<close>

fun dict_set :: "'k \<Rightarrow> 'v \<Rightarrow> ('k \<times> 'v) list \<Rightarrow> ('k \<times> 'v) list" where
  "dict_set k v [] = [(k, v)]"
| "dict_set k v ((k', v') # d) =
     (if k = k' then (k, v) # d else (k', v') # dict_set k v d)"

definition dict_of :: "('k \<times> 'v) list \<Rightarrow> ('k \<times> 'v) list" where
  "dict_of kvs = foldl (\<lambda>d (k, v). dict_set k v d) [] kvs"

text \<open>
  \<open>_extract_dynamic_themes\<close>: the keyword extractor (KeyBERT, an external library) is the
  parameter \<open>kw\<close>, which returns the list of (phrase, weight) pairs.
\<close>

definition extract_dynamic_themes ::
  "(string \<Rightarrow> (string \<times> real) list) \<Rightarrow> string \<Rightarrow> (string \<times> real) list" where
  "extract_dynamic_themes kw text = (let keywords = kw text in
     if keywords \<noteq> [] then dict_of keywords else [])"

definition mean :: "real list \<Rightarrow> real" where
  "mean xs = sum_list xs / real (length xs)"

text \<open>
  The theme scores of one section: the double comprehension over
  \<open>theme_embeddings.items()\<close> and \<open>dynamic_themes.items()\<close> with the test
  \<open>theme == theme_text\<close>. The encoder \<open>enc\<close> and the cosine similarity \<open>cos_sim\<close> are
  the external model and library function.
\<close>

definition theme_scores ::
  "(embedding \<Rightarrow> embedding \<Rightarrow> real) \<Rightarrow> (string \<times> embedding) list \<Rightarrow>
   (string \<times> real) list \<Rightarrow> embedding \<Rightarrow> real list" where
  "theme_scores cos_sim theme_embeddings dynamic_themes section_embedding =
     concat (map (\<lambda>(theme, theme_emb).
        map (\<lambda>(theme_text, theme_weight). cos_sim section_embedding theme_emb * theme_weight)
            (filter (\<lambda>(theme_text, theme_weight). theme = theme_text) dynamic_themes))
        theme_embeddings)"

definition section_text :: "section_rec \<Rightarrow> string" where
  "section_text s = section_title s @ ''. '' @ take 500 (content s)"

definition score_section ::
  "(string \<Rightarrow> embedding) \<Rightarrow> (embedding \<Rightarrow> embedding \<Rightarrow> real) \<Rightarrow>
   (string \<times> real) list \<Rightarrow> embedding \<Rightarrow> section_rec \<Rightarrow> real" where
  "score_section enc cos_sim dynamic_themes query_embedding s =
     (let theme_embeddings = map (\<lambda>(theme, w). (theme, enc theme)) dynamic_themes;
          section_embedding = enc (section_text s);
          overall_relevance_score = cos_sim section_embedding query_embedding;
          thematic_score =
            (if dynamic_themes \<noteq> [] then
               (let ts = theme_scores cos_sim theme_embeddings dynamic_themes section_embedding
                in if ts \<noteq> [] then mean ts else 0.0)
             else 0.0)
      in (overall_relevance_score * 0.4) + (thematic_score * 0.6))"

text \<open>The two \<open>continue\<close> filters at the head of the loop over the sections.\<close>

definition survives :: "section_rec \<Rightarrow> bool" where
  "survives s =
     (if py_in ''.pdf'' (section_title s) then False
      else if length (py_split (section_text s)) < 10 then False
      else True)"

definition mk_scored :: "section_rec \<Rightarrow> string \<Rightarrow> real \<Rightarrow> scored" where
  "mk_scored s d sc =
     \<lparr>section_title = section_title s, content = content s, page_number = page_number s,
      document = d, final_score = sc\<rparr>"

definition all_sections_of ::
  "(string \<Rightarrow> embedding) \<Rightarrow> (embedding \<Rightarrow> embedding \<Rightarrow> real) \<Rightarrow>
   (string \<times> real) list \<Rightarrow> embedding \<Rightarrow> doc list \<Rightarrow> scored list" where
  "all_sections_of enc cos_sim dynamic_themes query_embedding docs =
     concat (map (\<lambda>d.
        map (\<lambda>s. mk_scored s (filename d)
                    (score_section enc cos_sim dynamic_themes query_embedding s))
            (filter survives (sections d))) docs)"

text \<open>\<open>doc_counts\<close>, recomputed from \<open>final_results\<close> at every round.\<close>

definition doc_counts :: "scored list \<Rightarrow> string \<Rightarrow> nat" where
  "doc_counts final_results d = length (filter (\<lambda>res. document res = d) final_results)"

definition penalty :: "scored list \<Rightarrow> scored \<Rightarrow> real" where
  "penalty final_results c = 1.0 - real (doc_counts final_results (document c)) * DIVERSITY_PENALTY"

definition penalized_score :: "scored list \<Rightarrow> scored \<Rightarrow> real" where
  "penalized_score final_results c = final_score c * penalty final_results c"

text \<open>
  The body of the inner \<open>for candidate in candidates\<close> loop on the pair
  \<open>(best_candidate, best_score)\<close>, and the loop itself, started at \<open>(None, -1.0)\<close>.
\<close>

definition consider_candidate ::
  "scored list \<Rightarrow> string set \<Rightarrow> scored option \<times> real \<Rightarrow> scored \<Rightarrow> scored option \<times> real" where
  "consider_candidate final_results seen_titles best c =
     (if section_title c \<in> seen_titles then best
      else if penalized_score final_results c > snd best
           then (Some c, penalized_score final_results c)
           else best)"

definition best_of :: "scored list \<Rightarrow> string set \<Rightarrow> scored list \<Rightarrow> scored option" where
  "best_of final_results seen_titles candidates =
     fst (foldl (consider_candidate final_results seen_titles) (None, -1.0) candidates)"

lemma consider_candidate_fst:
  "fst (consider_candidate rs seen best c) = fst best \<or>
   fst (consider_candidate rs seen best c) = Some c"
  by (simp add: consider_candidate_def)

lemma foldl_consider_in:
  "fst (foldl (consider_candidate rs seen) best cs) = Some b \<Longrightarrow>
   fst best = Some b \<or> b \<in> set cs"
proof (induction cs arbitrary: best)
  case Nil
  then show ?case by simp
next
  case (Cons c cs)
  from Cons.prems have "fst (foldl (consider_candidate rs seen) (consider_candidate rs seen best c) cs) = Some b"
    by simp
  from Cons.IH [OF this] consider_candidate_fst [of rs seen best c]
  show ?case by auto
qed

lemma best_of_in_set: "best_of rs seen cs = Some b \<Longrightarrow> b \<in> set cs"
  using foldl_consider_in [of rs seen "(None, -1.0)" cs b] by (simp add: best_of_def)

text \<open>
  The \<open>while len(final_results) < k and candidates\<close> loop. A round either appends the
  best candidate, records its title and removes it from \<open>candidates\<close>
  (\<open>list.remove\<close> deletes the first equal element), or breaks.
\<close>

function select_loop :: "int \<Rightarrow> scored list \<Rightarrow> string set \<Rightarrow> scored list \<Rightarrow> scored list" where
  "select_loop k final_results seen_titles candidates =
     (if int (length final_results) < k \<and> candidates \<noteq> [] then
        (case best_of final_results seen_titles candidates of
           Some best_candidate \<Rightarrow>
             select_loop k (final_results @ [best_candidate])
               (insert (section_title best_candidate) seen_titles)
               (remove1 best_candidate candidates)
         | None \<Rightarrow> final_results)
      else final_results)"
  by pat_completeness auto
termination
proof (relation "measure (\<lambda>(k, rs, seen, cs). length cs)")
  show "wf (measure (\<lambda>(k, rs, seen, cs). length cs))" by simp
next
  fix k :: int and final_results seen_titles candidates x2
  assume "int (length final_results) < k \<and> candidates \<noteq> []"
    and b: "best_of final_results seen_titles candidates = Some x2"
  from best_of_in_set [OF b] have "length (remove1 x2 candidates) < length candidates"
    by (simp add: length_remove1) (cases candidates; simp)
  then show "((k, final_results @ [x2], insert (section_title x2) seen_titles,
               remove1 x2 candidates),
              k, final_results, seen_titles, candidates)
             \<in> measure (\<lambda>(k, rs, seen, cs). length cs)"
    by simp
qed

declare select_loop.simps [simp del]

text \<open>
  \<open>get_sections_with_content(docs, req, k)\<close>: themes from the query text, the scored
  candidates, the early return on an empty candidate list, the stable descending sort
  (\<open>sorted(..., reverse=True)\<close> keeps equal keys in their original order) and the loop.
\<close>

definition get_sections_with_content ::
  "(string \<Rightarrow> (string \<times> real) list) \<Rightarrow> (string \<Rightarrow> embedding) \<Rightarrow>
   (embedding \<Rightarrow> embedding \<Rightarrow> real) \<Rightarrow> doc list \<Rightarrow> req_model \<Rightarrow> int \<Rightarrow> scored list" where
  "get_sections_with_content kw enc cos_sim docs req k =
     (let job_text = combined_text req;
          query_embedding = embedding req;
          dynamic_themes = extract_dynamic_themes kw job_text;
          all_sections = all_sections_of enc cos_sim dynamic_themes query_embedding docs
      in if all_sections = [] then []
         else select_loop k [] {}
                (sort_key (\<lambda>s. - final_score s) all_sections))"

section \<open>Sub-section refiner: \<open>SubsectionAnalyzer.analyze_subsections\<close>\<close>

text \<open>
  \<open>np.argmax\<close>: the first index of the maximum; it raises on an empty array.
\<close>

fun argmax_acc :: "nat \<Rightarrow> real \<Rightarrow> nat \<Rightarrow> real list \<Rightarrow> nat" where
  "argmax_acc bi bv i [] = bi"
| "argmax_acc bi bv i (x # xs) =
     (if x > bv then argmax_acc i x (Suc i) xs else argmax_acc bi bv (Suc i) xs)"

definition np_argmax :: "real list \<Rightarrow> nat option" where
  "np_argmax xs = (case xs of [] \<Rightarrow> None | x # rest \<Rightarrow> Some (argmax_acc 0 x 1 rest))"

text \<open>
  The usable sentences of a section: \<open>sent_tokenize\<close> (NLTK, external) is the parameter
  \<open>tok\<close>.
\<close>

definition usable_sentences :: "(string \<Rightarrow> string list) \<Rightarrow> string \<Rightarrow> string list" where
  "usable_sentences tok c =
     map py_strip (filter (\<lambda>s. length (py_split (py_strip s)) > 4) (tok c))"

text \<open>
  The refined text of one section. The batch call \<open>model.encode(sents)\<close> is the encoder
  applied to each sentence; the result is \<open>Inl\<close> where the Python raises.
\<close>

definition refine_text ::
  "(string \<Rightarrow> string list) \<Rightarrow> (string \<Rightarrow> embedding) \<Rightarrow> (embedding \<Rightarrow> embedding \<Rightarrow> real) \<Rightarrow>
   embedding \<Rightarrow> string \<Rightarrow> string + string" where
  "refine_text tok enc cos_sim query_embedding c =
     (let sents = usable_sentences tok c in
      if length sents < 3 then Inr c
      else
        (let sentence_embeddings = map enc sents;
             sim_scores = map (\<lambda>e. cos_sim e query_embedding) sentence_embeddings
         in case np_argmax sim_scores of
              None \<Rightarrow> Inl ''ValueError: attempt to get argmax of an empty sequence''
            | Some best_sent_idx \<Rightarrow>
                (let start_idx = max 0 (int best_sent_idx - 1);
                     end_idx = min (int (length sents)) (int best_sent_idx + 2)
                 in Inr (py_join '' '' (py_slice sents (nat start_idx) (nat end_idx))))))"

record summary =
  out_document :: string
  refined_text :: string
  out_page_number :: nat

fun analyze_loop ::
  "(string \<Rightarrow> string list) \<Rightarrow> (string \<Rightarrow> embedding) \<Rightarrow> (embedding \<Rightarrow> embedding \<Rightarrow> real) \<Rightarrow>
   embedding \<Rightarrow> scored list \<Rightarrow> string + summary list" where
  "analyze_loop tok enc cos_sim q [] = Inr []"
| "analyze_loop tok enc cos_sim q (s # ss) =
     (case refine_text tok enc cos_sim q (content s) of
        Inl e \<Rightarrow> Inl e
      | Inr t \<Rightarrow>
          (case analyze_loop tok enc cos_sim q ss of
             Inl e \<Rightarrow> Inl e
           | Inr rest \<Rightarrow>
               Inr (\<lparr>out_document = document s, refined_text = t,
                      out_page_number = page_number s\<rparr> # rest)))"

definition analyze_subsections ::
  "(string \<Rightarrow> string list) \<Rightarrow> (string \<Rightarrow> embedding) \<Rightarrow> (embedding \<Rightarrow> embedding \<Rightarrow> real) \<Rightarrow>
   scored list \<Rightarrow> req_model \<Rightarrow> string + summary list" where
  "analyze_subsections tok enc cos_sim secs req =
     (if secs = [] then Inr [] else analyze_loop tok enc cos_sim (embedding req) secs)"

section \<open>Structural segmenter: \<open>PDFProcessor\<close>\<close>

text \<open>
  What pdfplumber hands to the segmenter. A word may carry a size; a character may carry
  a font name and a size; a line has its text and its characters. A page answers
  \<open>extract_words()\<close> and \<open>extract_text_lines(layout=True, strip=True)\<close>, each of which
  may raise (\<open>Inl\<close> with the exception's message). Opening the file may raise as well.
\<close>

record word =
  word_size :: "real option"

record pchar =
  fontname :: "string option"
  char_size :: "real option"

record line =
  line_text :: string
  chars :: "pchar list"

record page =
  extract_words :: "string + word list"
  extract_text_lines :: "string + line list"

type_synonym pdf_file = "string + page list"

text \<open>\<open>np.median\<close> of a non-empty list.\<close>

definition np_median :: "real list \<Rightarrow> real" where
  "np_median xs =
     (let s = sort xs; n = length s in
      if n mod 2 = 1 then s ! (n div 2) else (s ! (n div 2 - 1) + s ! (n div 2)) / 2)"

text \<open>
  \<open>_get_median_font_size\<close>: the sizes of the words whose size is present and not zero
  (\<open>if word.get('size')\<close>); 10.0 when there is none.
\<close>

definition word_sizes :: "word list \<Rightarrow> real list" where
  "word_sizes ws =
     concat (map (\<lambda>w. case word_size w of None \<Rightarrow> [] | Some z \<Rightarrow> (if z = 0 then [] else [z])) ws)"

definition get_median_font_size :: "page \<Rightarrow> string + real" where
  "get_median_font_size p =
     (case extract_words p of
        Inl e \<Rightarrow> Inl e
      | Inr ws \<Rightarrow> (let sizes = word_sizes ws in
                   if sizes = [] then Inr 10.0 else Inr (np_median sizes)))"

text \<open>
  \<open>str.lower()\<close> on the code points below 256: the letters A to Z and the letters
  0xC0 to 0xDE without the multiplication sign 0xD7.
\<close>

definition upper_letters :: string where
  "upper_letters =
     ''ABCDEFGHIJKLMNOPQRSTUVWXYZ'' @
     [CHR 0xC0, CHR 0xC1, CHR 0xC2, CHR 0xC3, CHR 0xC4, CHR 0xC5, CHR 0xC6,
      CHR 0xC7, CHR 0xC8, CHR 0xC9, CHR 0xCA, CHR 0xCB, CHR 0xCC, CHR 0xCD,
      CHR 0xCE, CHR 0xCF, CHR 0xD0, CHR 0xD1, CHR 0xD2, CHR 0xD3, CHR 0xD4,
      CHR 0xD5, CHR 0xD6, CHR 0xD8, CHR 0xD9, CHR 0xDA, CHR 0xDB, CHR 0xDC,
      CHR 0xDD, CHR 0xDE]"

definition lower_letters :: string where
  "lower_letters =
     ''abcdefghijklmnopqrstuvwxyz'' @
     [CHR 0xE0, CHR 0xE1, CHR 0xE2, CHR 0xE3, CHR 0xE4, CHR 0xE5, CHR 0xE6,
      CHR 0xE7, CHR 0xE8, CHR 0xE9, CHR 0xEA, CHR 0xEB, CHR 0xEC, CHR 0xED,
      CHR 0xEE, CHR 0xEF, CHR 0xF0, CHR 0xF1, CHR 0xF2, CHR 0xF3, CHR 0xF4,
      CHR 0xF5, CHR 0xF6, CHR 0xF8, CHR 0xF9, CHR 0xFA, CHR 0xFB, CHR 0xFC,
      CHR 0xFD, CHR 0xFE]"

definition lower_char :: "char \<Rightarrow> char" where
  "lower_char c =
     (case map_of (zip upper_letters lower_letters) c of
        Some l \<Rightarrow> l
      | None \<Rightarrow> c)"

definition lower :: "string \<Rightarrow> string" where
  "lower s = map lower_char s"

text \<open>\<open>file_path.split('\\')[-1].split('/')[-1]\<close>.\<close>

definition after_last :: "char \<Rightarrow> string \<Rightarrow> string" where
  "after_last sep s = rev (takeWhile (\<lambda>c. c \<noteq> sep) (rev s))"

definition basename :: "string \<Rightarrow> string" where
  "basename file_path = after_last (CHR ''/'') (after_last (CHR 0x5C) file_path)"

text \<open>
  The title heuristic on a line that has text and characters: \<open>is_title\<close> of the source,
  from the stripped text, the first character and the size threshold.
\<close>

definition is_bold :: "pchar \<Rightarrow> bool" where
  "is_bold first_char =
     (let font_name = lower (case fontname first_char of None \<Rightarrow> [] | Some f \<Rightarrow> f)
      in py_in ''bold'' font_name \<or> py_in ''black'' font_name)"

definition font_size_of :: "pchar \<Rightarrow> real" where
  "font_size_of first_char = (case char_size first_char of None \<Rightarrow> 0 | Some z \<Rightarrow> z)"

definition is_title :: "real \<Rightarrow> string \<Rightarrow> pchar \<Rightarrow> bool" where
  "is_title title_size_threshold txt first_char =
     (let is_large_enough = font_size_of first_char > title_size_threshold;
          is_short_line = (3 < length (py_split txt) \<and> length (py_split txt) < 12);
          ends_with_punctuation = (endswith txt ''.'' \<or> endswith txt '','')
      in is_large_enough \<and> is_bold first_char \<and> is_short_line \<and> \<not> ends_with_punctuation)"

text \<open>
  The loop state: the sections appended so far, \<open>current_section_title\<close> (\<open>None\<close> until
  the first line), \<open>current_section_content\<close> and \<open>current_section_page\<close>.
\<close>

record seg_state =
  st_sections :: "section_rec list"
  st_title :: "string option"
  st_content :: string
  st_page :: nat

definition init_state :: seg_state where
  "init_state = \<lparr>st_sections = [], st_title = None, st_content = [], st_page = 1\<rparr>"

definition title_string :: "string option \<Rightarrow> string" where
  "title_string t = (case t of None \<Rightarrow> [] | Some x \<Rightarrow> x)"

text \<open>
  \<open>close_section\<close>: the append guarded by \<open>if current_section_content.strip()\<close>, used at
  a title line and after the last page.
\<close>

definition close_section :: "seg_state \<Rightarrow> section_rec list" where
  "close_section st =
     (if py_strip (st_content st) \<noteq> [] then
        st_sections st @ [\<lparr>section_title = title_string (st_title st),
                           content = py_strip (st_content st),
                           page_number = st_page st\<rparr>]
      else st_sections st)"

text \<open>The body of \<open>for line in lines\<close>.\<close>

definition process_line :: "real \<Rightarrow> nat \<Rightarrow> seg_state \<Rightarrow> line \<Rightarrow> seg_state" where
  "process_line title_size_threshold page_num st l =
     (let txt = py_strip (line_text l) in
      if txt = [] \<or> chars l = [] then st
      else
        (case chars l of
           [] \<Rightarrow> st
         | first_char # _ \<Rightarrow>
             (let st1 = (if st_title st = None then st\<lparr>st_title := Some txt\<rparr> else st)
              in if is_title title_size_threshold txt first_char then
                   \<lparr>st_sections = close_section st1, st_title = Some txt,
                    st_content = [], st_page = page_num\<rparr>
                 else st1\<lparr>st_content := st_content st1 @ txt @ '' ''\<rparr>)))"

text \<open>
  The loop over the pages, numbered from \<open>page_num\<close>. When a page's line extraction
  raises, the loop stops with the state reached so far and the message.
\<close>

fun process_pages :: "real \<Rightarrow> nat \<Rightarrow> seg_state \<Rightarrow> page list \<Rightarrow> seg_state \<times> string option" where
  "process_pages thr page_num st [] = (st, None)"
| "process_pages thr page_num st (p # ps) =
     (case extract_text_lines p of
        Inl e \<Rightarrow> (st, Some e)
      | Inr lines \<Rightarrow> process_pages thr (Suc page_num) (foldl (process_line thr page_num) st lines) ps)"

definition error_section :: "string \<Rightarrow> string \<Rightarrow> section_rec" where
  "error_section doc_filename e =
     \<lparr>section_title = ''Error processing '' @ doc_filename, content = e, page_number = 1\<rparr>"

text \<open>
  The body of the \<open>try\<close> block of \<open>extract_text_with_structure\<close>: the sections in
  \<open>doc_data["sections"]\<close> when the block ends, and the message of the exception that
  ended it, if one did. Opening the file, \<open>extract_words\<close> on the first page and
  \<open>extract_text_lines\<close> on any page may raise; sections appended before stay appended.
\<close>

definition try_body :: "pdf_file \<Rightarrow> section_rec list \<times> string option" where
  "try_body pdf =
     (case pdf of
        Inl e \<Rightarrow> ([], Some e)
      | Inr pages \<Rightarrow>
          (case pages of
             [] \<Rightarrow> ([], None)
           | p0 # _ \<Rightarrow>
               (case get_median_font_size p0 of
                  Inl e \<Rightarrow> ([], Some e)
                | Inr median_body_size \<Rightarrow>
                    (let title_size_threshold = median_body_size * 1.15 in
                     case process_pages title_size_threshold 1 init_state pages of
                       (st, None) \<Rightarrow> (close_section st, None)
                     | (st, Some e) \<Rightarrow> (st_sections st, Some e)))))"

text \<open>
  \<open>extract_text_with_structure\<close>: the \<open>except\<close> branch adds the error section only
  \<open>if not doc_data["sections"]\<close>.
\<close>

definition extract_text_with_structure :: "string \<Rightarrow> pdf_file \<Rightarrow> doc" where
  "extract_text_with_structure file_path pdf =
     (let doc_filename = basename file_path in
      case try_body pdf of
        (secs, None) \<Rightarrow> \<lparr>filename = doc_filename, sections = secs\<rparr>
      | (secs, Some e) \<Rightarrow>
          \<lparr>filename = doc_filename,
           sections = (if secs = [] then secs @ [error_section doc_filename e] else secs)\<rparr>)"

section \<open>Pipeline orchestrator: \<open>process_pdfs_with_ml\<close>\<close>

text \<open>
  A stored section (\<open>PDFSection\<close>) keeps its embedding as JSON; \<open>get_embedding\<close> gives the
  empty list when nothing is stored, and \<open>add_section\<close> stores an embedding only when it
  is not empty, so the stored embedding is a list that is empty when absent. A stored
  document (\<open>PDF\<close>) has its id, its file name, its file data (\<open>None\<close> when missing or
  empty; otherwise what pdfplumber reads from the bytes) and its stored sections.
\<close>

record stored_section =
  ss_title :: string
  ss_content :: string
  ss_page :: nat
  ss_index :: nat
  ss_embedding :: embedding

record pdf =
  pdf_id :: nat
  original_filename :: string
  file_data :: "pdf_file option"
  stored_sections :: "stored_section list"

text \<open>A section extracted from a file, before its embedding is computed.\<close>

record extracted =
  ex_title :: string
  ex_content :: string
  ex_page :: nat
  ex_index :: nat
  ex_text :: string

text \<open>A section in \<open>all_sections\<close>, with \<open>source_pdf\<close> and \<open>pdf_id\<close> attached.\<close>

record psection =
  p_title :: string
  p_content :: string
  p_page :: nat
  p_index :: nat
  p_embedding :: embedding
  source_pdf :: string
  p_pdf_id :: nat

text \<open>What the run does to a document, in order: segmentation and encoder calls.\<close>

datatype event = Segmented nat | Encoded string

text \<open>
  \<open>extract_sections_from_pdf\<close>: the segmenter's sections, numbered by \<open>enumerate\<close>, those
  with at least 10 words in \<open>section_text\<close> kept.
\<close>

definition extract_sections_from_pdf :: "string \<Rightarrow> pdf_file \<Rightarrow> extracted list" where
  "extract_sections_from_pdf pdf_path f =
     (let secs = sections (extract_text_with_structure pdf_path f) in
      map (\<lambda>(idx, s). \<lparr>ex_title = section_title s, ex_content = content s,
                        ex_page = page_number s, ex_index = idx, ex_text = section_text s\<rparr>)
          (filter (\<lambda>(idx, s). length (py_split (section_text s)) \<ge> 10)
                  (zip [0 ..< length secs] secs)))"

text \<open>
  \<open>generate_embeddings_for_sections\<close>, the model being ready: \<open>encode_text\<close> may raise
  (\<open>Inl\<close>), and the \<open>except\<close> branch stores the empty list.
\<close>

definition embed_section :: "(string \<Rightarrow> string + embedding) \<Rightarrow> extracted \<Rightarrow> extracted \<times> embedding" where
  "embed_section encode_text s =
     (case encode_text (ex_text s) of Inr e \<Rightarrow> (s, e) | Inl err \<Rightarrow> (s, []))"

definition generate_embeddings_for_sections ::
  "(string \<Rightarrow> string + embedding) \<Rightarrow> extracted list \<Rightarrow> (extracted \<times> embedding) list" where
  "generate_embeddings_for_sections encode_text secs = map (embed_section encode_text) secs"

text \<open>
  \<open>save_embeddings_to_db\<close>: the stored sections are replaced; \<open>section_index\<close> is the
  position in the saved list.
\<close>

definition save_embeddings_to_db :: "pdf \<Rightarrow> (extracted \<times> embedding) list \<Rightarrow> pdf" where
  "save_embeddings_to_db d sections_data =
     d\<lparr>stored_sections :=
         map (\<lambda>(idx, (s, e)). \<lparr>ss_title = ex_title s, ss_content = ex_content s,
                                ss_page = ex_page s, ss_index = idx, ss_embedding = e\<rparr>)
             (zip [0 ..< length sections_data] sections_data)\<rparr>"

definition of_stored :: "pdf \<Rightarrow> stored_section \<Rightarrow> psection" where
  "of_stored d s =
     \<lparr>p_title = ss_title s, p_content = ss_content s, p_page = ss_page s, p_index = ss_index s,
      p_embedding = ss_embedding s, source_pdf = original_filename d, p_pdf_id = pdf_id d\<rparr>"

definition of_extracted :: "pdf \<Rightarrow> extracted \<times> embedding \<Rightarrow> psection" where
  "of_extracted d se =
     \<lparr>p_title = ex_title (fst se), p_content = ex_content (fst se), p_page = ex_page (fst se),
      p_index = ex_index (fst se), p_embedding = snd se,
      source_pdf = original_filename d, p_pdf_id = pdf_id d\<rparr>"

text \<open>The test that decides whether the stored sections of a document are reused.\<close>

definition cache_usable :: "pdf \<Rightarrow> bool" where
  "cache_usable d =
     (stored_sections d \<noteq> [] \<and> list_all (\<lambda>s. ss_embedding s \<noteq> []) (stored_sections d))"

text \<open>
  The body of \<open>for pdf in pdfs\<close>: the document as stored afterwards, the sections it
  adds to \<open>all_sections\<close>, and what was done. The temporary file's path is the parameter
  \<open>temp_path\<close>.
\<close>

definition process_pdf ::
  "(string \<Rightarrow> string + embedding) \<Rightarrow> (pdf \<Rightarrow> string) \<Rightarrow> pdf \<Rightarrow> pdf \<times> psection list \<times> event list" where
  "process_pdf encode_text temp_path d =
     (if cache_usable d then (d, map (of_stored d) (stored_sections d), [])
      else
        (case file_data d of
           None \<Rightarrow> (d, [], [])
         | Some pdf_data \<Rightarrow>
             (let secs = extract_sections_from_pdf (temp_path d) pdf_data;
                  sections_with_embeddings = generate_embeddings_for_sections encode_text secs
              in (save_embeddings_to_db d sections_with_embeddings,
                  map (of_extracted d) sections_with_embeddings,
                  Segmented (pdf_id d) # map (\<lambda>s. Encoded (ex_text s)) secs))))"

fun process_all ::
  "(string \<Rightarrow> string + embedding) \<Rightarrow> (pdf \<Rightarrow> string) \<Rightarrow> pdf list \<Rightarrow>
   pdf list \<times> psection list \<times> event list" where
  "process_all encode_text temp_path [] = ([], [], [])"
| "process_all encode_text temp_path (d # ds) =
     (case process_pdf encode_text temp_path d of
        (d', secs, evs) \<Rightarrow>
          (case process_all encode_text temp_path ds of
             (ds', secs', evs') \<Rightarrow> (d' # ds', secs @ secs', evs @ evs')))"

text \<open>
  The scoring loop: a section with a non-empty embedding gets its cosine similarity to
  the query (the library call may raise, \<open>Inl\<close>), any other section gets 0.0.
\<close>

fun score_all ::
  "(embedding \<Rightarrow> embedding \<Rightarrow> string + real) \<Rightarrow> embedding \<Rightarrow> psection list \<Rightarrow>
   string + (psection \<times> real) list" where
  "score_all cos_sim q [] = Inr []"
| "score_all cos_sim q (s # ss) =
     (case (if p_embedding s \<noteq> [] then cos_sim (p_embedding s) q else Inr 0.0) of
        Inl e \<Rightarrow> Inl e
      | Inr r \<Rightarrow> (case score_all cos_sim q ss of Inl e \<Rightarrow> Inl e | Inr rest \<Rightarrow> Inr ((s, r) # rest)))"

text \<open>\<open>xs[:k]\<close> for an integer \<open>k\<close>: a negative \<open>k\<close> counts from the end.\<close>

definition py_prefix :: "int \<Rightarrow> 'a list \<Rightarrow> 'a list" where
  "py_prefix k xs = (if k \<ge> 0 then take (nat k) xs else take (length xs - nat (- k)) xs)"

record card =
  card_id :: "nat \<times> nat"
  pdfName :: string
  sectionTitle :: string
  card_content :: string
  pageNumber :: nat
  importanceRank :: nat
  relevanceScore :: real

record metadata =
  job_to_be_done :: string
  input_documents :: "string list"
  total_sections_processed :: nat
  top_insights_returned :: nat

datatype outcome = Error string | Insights "card list" metadata

definition truncate300 :: "string \<Rightarrow> string" where
  "truncate300 c = (if length c > 300 then take 300 c @ ''...'' else c)"

definition insight_card :: "nat \<times> (psection \<times> real) \<Rightarrow> card" where
  "insight_card x =
     (case x of (rank, (s, r)) \<Rightarrow>
        \<lparr>card_id = (p_pdf_id s, p_index s), pdfName = source_pdf s, sectionTitle = p_title s,
         card_content = truncate300 (p_content s), pageNumber = p_page s,
         importanceRank = rank + 1, relevanceScore = r\<rparr>)"

definition top_sections :: "int \<Rightarrow> (psection \<times> real) list \<Rightarrow> (psection \<times> real) list" where
  "top_sections k scored_sections = py_prefix k (sort_key (\<lambda>x. - snd x) scored_sections)"

text \<open>
  \<open>process_pdfs_with_ml\<close>. \<open>model_ready\<close> is \<open>is_model_ready()\<close>; \<open>db_pdfs\<close> is the
  result of \<open>get_pdfs_from_db\<close>: \<open>Inl\<close> with the message when it raises (no database, or
  no document found), a non-empty list otherwise. \<open>encode_text\<close> encodes a section and
  \<open>model_encode\<close> (the model's own \<open>encode\<close>, called by \<open>parse_job_to_be_done\<close>) the
  query \<open>"Task: " + job_to_be_done\<close>. Every exception inside the \<open>try\<close> becomes
  \<open>"Processing failed: ..."\<close>. The result comes with the documents as stored afterwards
  (none when the run stops before it reads them) and with what was done to them.
\<close>

definition process_pdfs_with_ml ::
  "bool \<Rightarrow> (string \<Rightarrow> string + embedding) \<Rightarrow> (string \<Rightarrow> string + embedding) \<Rightarrow>
   (embedding \<Rightarrow> embedding \<Rightarrow> string + real) \<Rightarrow> (pdf \<Rightarrow> string) \<Rightarrow> string + pdf list \<Rightarrow>
   string \<Rightarrow> int \<Rightarrow> outcome \<times> pdf list \<times> event list" where
  "process_pdfs_with_ml model_ready encode_text model_encode cos_sim temp_path db_pdfs job k =
     (if \<not> model_ready then (Error ''ML model not ready'', [], [])
      else
        (case db_pdfs of
           Inl e \<Rightarrow> (Error (''Processing failed: '' @ e), [], [])
         | Inr pdfs \<Rightarrow>
             (case process_all encode_text temp_path pdfs of
                (pdfs', all_sections, evs) \<Rightarrow>
                  if all_sections = [] then
                    (Error ''No sections found in the provided PDFs'', pdfs', evs)
                  else
                    (case model_encode (''Task: '' @ job) of
                       Inl e \<Rightarrow> (Error (''Processing failed: '' @ e), pdfs', evs)
                     | Inr query_embedding \<Rightarrow>
                         (case score_all cos_sim query_embedding all_sections of
                            Inl e \<Rightarrow> (Error (''Processing failed: '' @ e), pdfs', evs)
                          | Inr scored_sections \<Rightarrow>
                              (let tops = top_sections k scored_sections;
                                   insight_cards = map insight_card (zip [0 ..< length tops] tops)
                               in (Insights insight_cards
                                     \<lparr>job_to_be_done = job,
                                      input_documents = map original_filename pdfs,
                                      total_sections_processed = length all_sections,
                                      top_insights_returned = length insight_cards\<rparr>,
                                   pdfs', evs)))))))"

section \<open>What two runs are compared on\<close>

text \<open>
  A section without its \<open>section_index\<close> (a saved section is renumbered by its position
  in the saved list), a scored section likewise, an insight card without its id (which
  is built from the index), and the outcome of a run with its cards so viewed.
\<close>

definition section_view :: "psection \<Rightarrow> string \<times> string \<times> nat \<times> embedding \<times> string \<times> nat" where
  "section_view s = (p_title s, p_content s, p_page s, p_embedding s, source_pdf s, p_pdf_id s)"

definition card_view :: "card \<Rightarrow> string \<times> string \<times> string \<times> nat \<times> nat \<times> real" where
  "card_view c =
     (pdfName c, sectionTitle c, card_content c, pageNumber c, importanceRank c, relevanceScore c)"

definition outcome_view ::
  "outcome \<Rightarrow> string + (string \<times> string \<times> string \<times> nat \<times> nat \<times> real) list \<times> metadata" where
  "outcome_view out = (case out of Error e \<Rightarrow> Inl e | Insights cards m \<Rightarrow> Inr (map card_view cards, m))"

definition scored_view ::
  "psection \<times> real \<Rightarrow> (string \<times> string \<times> nat \<times> embedding \<times> string \<times> nat) \<times> real" where
  "scored_view x = (section_view (fst x), snd x)"

section \<open>The scoring formula as the specification words it\<close>

text \<open>
  The thematic score in the specification's words: the mean over the themes of the
  cosine similarity to the theme's embedding times the theme's weight, 0.0 for no theme.
\<close>

definition thematic_mean ::
  "(string \<Rightarrow> embedding) \<Rightarrow> (embedding \<Rightarrow> embedding \<Rightarrow> real) \<Rightarrow>
   (string \<times> real) list \<Rightarrow> embedding \<Rightarrow> real" where
  "thematic_mean enc cos_sim themes section_embedding =
     (if themes = [] then 0
      else sum_list (map (\<lambda>(phrase, weight). cos_sim section_embedding (enc phrase) * weight) themes)
           / real (length themes))"


section \<open>Properties of the relevance ranker\<close>

subsection \<open>Themes are a dictionary: every phrase occurs once\<close>

lemma dict_set_keys: "fst ` set (dict_set k v d) = insert k (fst ` set d)"
proof (induction d)
  case Nil
  then show ?case by simp
next
  case (Cons a d)
  obtain k' v' where a: "a = (k', v')" by (cases a)
  show ?case
  proof (cases "k = k'")
    case True
    with a show ?thesis by simp
  next
    case False
    with a Cons.IH show ?thesis by (simp add: insert_commute)
  qed
qed

lemma dict_set_distinct: "distinct (map fst d) \<Longrightarrow> distinct (map fst (dict_set k v d))"
proof (induction d)
  case Nil
  then show ?case by simp
next
  case (Cons a d)
  obtain k' v' where a: "a = (k', v')" by (cases a)
  with Cons show ?case using dict_set_keys [of k v d] by auto
qed

lemma foldl_dict_set_distinct:
  "distinct (map fst d) \<Longrightarrow> distinct (map fst (foldl (\<lambda>d (k, v). dict_set k v d) d kvs))"
  by (induction kvs arbitrary: d) (auto simp: dict_set_distinct split: prod.splits)

lemma dict_of_distinct: "distinct (map fst (dict_of kvs))"
  unfolding dict_of_def by (rule foldl_dict_set_distinct) simp

lemma extract_dynamic_themes_distinct: "distinct (map fst (extract_dynamic_themes kw t))"
  by (simp add: extract_dynamic_themes_def Let_def dict_of_distinct)

lemma filter_key_distinct:
  "distinct (map fst d) \<Longrightarrow> (t, w) \<in> set d \<Longrightarrow>
   filter (\<lambda>(t', w'). t = t') d = [(t, w)]"
proof (induction d)
  case Nil
  then show ?case by simp
next
  case (Cons a d)
  obtain k' v' where a: "a = (k', v')" by (cases a)
  show ?case
  proof (cases "(t, w) = a")
    case True
    with Cons.prems a have "t \<notin> fst ` set d" by auto
    then have "filter (\<lambda>(t', w'). t = t') d = []"
      by (auto simp: filter_empty_conv image_iff)
    with True a show ?thesis by auto
  next
    case False
    with Cons.prems have in_d: "(t, w) \<in> set d" by auto
    with Cons.prems a have "t \<noteq> k'" by (auto simp: image_iff)
    with Cons.IH [OF _ in_d] Cons.prems a show ?thesis by auto
  qed
qed



lemma theme_scores_aux:
  assumes d: "distinct (map fst themes)"
  shows "set xs \<subseteq> set themes \<Longrightarrow>
     theme_scores cos_sim (map (\<lambda>(theme, w). (theme, enc theme)) xs) themes e =
     map (\<lambda>(t, w). cos_sim e (enc t) * w) xs"
proof (induction xs)
  case Nil
  then show ?case by (simp add: theme_scores_def)
next
  case (Cons x xs)
  obtain t w where x: "x = (t, w)" by (cases x)
  with Cons.prems have "(t, w) \<in> set themes" by simp
  from filter_key_distinct [OF d this]
  have f: "filter (\<lambda>(t', w'). t = t') themes = [(t, w)]" .
  from Cons have "theme_scores cos_sim (map (\<lambda>(theme, w). (theme, enc theme)) xs) themes e =
     map (\<lambda>(t, w). cos_sim e (enc t) * w) xs" by simp
  with f x show ?case by (simp add: theme_scores_def)
qed

lemma theme_scores_distinct:
  "distinct (map fst themes) \<Longrightarrow>
   theme_scores cos_sim (map (\<lambda>(theme, w). (theme, enc theme)) themes) themes e =
   map (\<lambda>(t, w). cos_sim e (enc t) * w) themes"
  by (rule theme_scores_aux) simp_all


lemma score_section_formula:
  "score_section enc cos_sim (extract_dynamic_themes kw job_text) query_embedding s =
     0.4 * cos_sim (enc (section_text s)) query_embedding +
     0.6 * thematic_mean enc cos_sim (extract_dynamic_themes kw job_text) (enc (section_text s))"
proof -
  let ?th = "extract_dynamic_themes kw job_text"
  have "theme_scores cos_sim (map (\<lambda>(theme, w). (theme, enc theme)) ?th) ?th (enc (section_text s))
        = map (\<lambda>(t, w). cos_sim (enc (section_text s)) (enc t) * w) ?th"
    by (rule theme_scores_distinct) (rule extract_dynamic_themes_distinct)
  then show ?thesis
    by (simp add: score_section_def thematic_mean_def mean_def Let_def)
qed

subsection \<open>One round of the selection loop\<close>

lemma foldl_consider_mono:
  "snd best \<le> snd (foldl (consider_candidate rs seen) best cs)"
proof (induction cs arbitrary: best)
  case Nil
  then show ?case by simp
next
  case (Cons c cs)
  have "snd best \<le> snd (consider_candidate rs seen best c)"
    by (simp add: consider_candidate_def)
  also have "\<dots> \<le> snd (foldl (consider_candidate rs seen) (consider_candidate rs seen best c) cs)"
    by (rule Cons.IH)
  finally show ?case by simp
qed

lemma foldl_consider_upper:
  "e \<in> set cs \<Longrightarrow> section_title e \<notin> seen \<Longrightarrow>
   penalized_score rs e \<le> snd (foldl (consider_candidate rs seen) best cs)"
proof (induction cs arbitrary: best)
  case Nil
  then show ?case by simp
next
  case (Cons c cs)
  show ?case
  proof (cases "e = c")
    case True
    with Cons.prems have "penalized_score rs e \<le> snd (consider_candidate rs seen best c)"
      by (simp add: consider_candidate_def)
    also have "\<dots> \<le> snd (foldl (consider_candidate rs seen) (consider_candidate rs seen best c) cs)"
      by (rule foldl_consider_mono)
    finally show ?thesis by simp
  next
    case False
    with Cons.prems have "e \<in> set cs" by simp
    from Cons.IH [OF this Cons.prems(2)] show ?thesis by simp
  qed
qed

lemma foldl_consider_score:
  "(fst best = None \<longrightarrow> snd best = b0) \<and>
   (\<forall>b. fst best = Some b \<longrightarrow> snd best = penalized_score rs b \<and> b0 < snd best) \<Longrightarrow>
   (fst (foldl (consider_candidate rs seen) best cs) = None \<longrightarrow>
      snd (foldl (consider_candidate rs seen) best cs) = b0) \<and>
   (\<forall>b. fst (foldl (consider_candidate rs seen) best cs) = Some b \<longrightarrow>
      snd (foldl (consider_candidate rs seen) best cs) = penalized_score rs b \<and>
      b0 < snd (foldl (consider_candidate rs seen) best cs))"
proof (induction cs arbitrary: best)
  case Nil
  then show ?case by auto
next
  case (Cons c cs)
  have "(fst (consider_candidate rs seen best c) = None \<longrightarrow>
           snd (consider_candidate rs seen best c) = b0) \<and>
        (\<forall>b. fst (consider_candidate rs seen best c) = Some b \<longrightarrow>
           snd (consider_candidate rs seen best c) = penalized_score rs b \<and>
           b0 < snd (consider_candidate rs seen best c))"
  proof (cases "fst best")
    case None
    with Cons.prems show ?thesis by (auto simp: consider_candidate_def)
  next
    case (Some b')
    with Cons.prems show ?thesis by (auto simp: consider_candidate_def)
  qed
  from Cons.IH [OF this] show ?case by auto
qed

lemma best_of_Some_iff:
  "best_of rs seen cs = Some b \<Longrightarrow>
   snd (foldl (consider_candidate rs seen) (None, -1.0) cs) = penalized_score rs b \<and>
   -1 < penalized_score rs b"
  using foldl_consider_score [of "(None, -1.0)" "-1" rs seen cs]
  by (simp add: best_of_def)

lemma best_of_None:
  "best_of rs seen cs = None \<Longrightarrow>
   snd (foldl (consider_candidate rs seen) (None, -1.0) cs) = -1"
  using foldl_consider_score [of "(None, -1.0)" "-1" rs seen cs]
  by (simp add: best_of_def)

lemma best_of_max:
  assumes "best_of rs seen cs = Some b" "e \<in> set cs" "section_title e \<notin> seen"
  shows "penalized_score rs e \<le> penalized_score rs b"
  using best_of_Some_iff [OF assms(1)] foldl_consider_upper [OF assms(2,3), of rs "(None, -1.0)"]
  by simp

lemma best_of_exists:
  assumes "e \<in> set cs" "section_title e \<notin> seen" "-1 < penalized_score rs e"
  shows "\<exists>b. best_of rs seen cs = Some b"
proof (cases "best_of rs seen cs")
  case None
  from best_of_None [OF None] foldl_consider_upper [OF assms(1,2), of rs "(None, -1.0)"] assms(3)
  show ?thesis by simp
next
  case (Some b)
  then show ?thesis by simp
qed


subsection \<open>The selection returns candidates only\<close>

lemma select_loop_subset: "set (select_loop k rs seen cs) \<subseteq> set rs \<union> set cs"
proof (induction k rs seen cs rule: select_loop.induct)
  case (1 k rs seen cs)
  show ?case
  proof (cases "int (length rs) < k \<and> cs \<noteq> []")
    case False
    then show ?thesis by (subst select_loop.simps) auto
  next
    case True
    show ?thesis
    proof (cases "best_of rs seen cs")
      case None
      with True show ?thesis by (subst select_loop.simps) auto
    next
      case (Some b)
      from best_of_in_set [OF Some] have "b \<in> set cs" .
      moreover have "set (remove1 b cs) \<subseteq> set cs" by (rule set_remove1_subset)
      moreover from "1.IH" [OF True Some]
      have "set (select_loop k (rs @ [b]) (insert (section_title b) seen) (remove1 b cs))
            \<subseteq> set (rs @ [b]) \<union> set (remove1 b cs)" .
      ultimately show ?thesis using True Some
        by (subst select_loop.simps) auto
    qed
  qed
qed


lemma all_sections_of_mem:
  "c \<in> set (all_sections_of enc cos_sim themes q docs) \<Longrightarrow>
   \<exists>d \<in> set docs. \<exists>s \<in> set (sections d). survives s \<and>
     c = mk_scored s (filename d) (score_section enc cos_sim themes q s)"
  by (auto simp: all_sections_of_def)

lemma get_sections_subset:
  "set (get_sections_with_content kw enc cos_sim docs req k) \<subseteq>
   set (all_sections_of enc cos_sim (extract_dynamic_themes kw (combined_text req)) (embedding req) docs)"
proof -
  have "set (select_loop k [] {} (sort_key (\<lambda>s. - final_score s) xs)) \<subseteq> set xs" for xs
    using select_loop_subset [of k "[]" "{}" "sort_key (\<lambda>s. - final_score s) xs"] by simp
  then show ?thesis by (simp add: get_sections_with_content_def Let_def)
qed


text \<open>
  Claim C6. Whatever the encoder, the similarity and the themes are, every entry of the
  ranking output comes from a section whose title does not contain \<open>.pdf\<close> and whose
  combined text \<open>title + ". " + content[:500]\<close> has at least 10 words: a section that
  fails one of the two tests is dropped before it is scored and never appears.
\<close>

theorem filtered_never_ranked:
  assumes "r \<in> set (get_sections_with_content kw enc cos_sim docs req k)"
  shows "\<not> py_in ''.pdf'' (section_title r) \<and>
         10 \<le> length (py_split (section_title r @ ''. '' @ take 500 (content r))) \<and>
         (\<exists>d \<in> set docs. \<exists>s \<in> set (sections d). survives s \<and>
            section_title r = section_title s \<and> content r = content s \<and> document r = filename d)"
proof -
  from assms get_sections_subset
  have "r \<in> set (all_sections_of enc cos_sim (extract_dynamic_themes kw (combined_text req)) (embedding req) docs)"
    by blast
  from all_sections_of_mem [OF this] obtain d s where
    ds: "d \<in> set docs" "s \<in> set (sections d)" "survives s"
    and r: "r = mk_scored s (filename d) (score_section enc cos_sim (extract_dynamic_themes kw (combined_text req)) (embedding req) s)"
    by blast
  from ds(3) have "\<not> py_in ''.pdf'' (section_title s)" "10 \<le> length (py_split (section_text s))"
    by (auto simp: survives_def split: if_splits)
  with r ds show ?thesis by (auto simp: mk_scored_def section_text_def)
qed

theorem filtered_never_ranked_witness:
  "\<lparr>section_title = ''Intro'', content = ''one two three four five six seven eight nine'', page_number = 1,
     document = ''a.pdf'', final_score = 0.35\<rparr>
   \<in> set (get_sections_with_content (\<lambda>t. [(''plan'', 0.5)]) (\<lambda>t. [1]) (\<lambda>a b. 0.5)
        [\<lparr>filename = ''a.pdf'', sections =
           [\<lparr>section_title = ''Intro'', content = ''one two three four five six seven eight nine'', page_number = 1\<rparr>,
            \<lparr>section_title = ''notes.pdf'', content = ''one two three four five six seven eight nine'', page_number = 2\<rparr>]\<rparr>]
        \<lparr>combined_text = ''Task: plan'', embedding = [1]\<rparr> 5) \<and>
   \<not> py_in ''.pdf'' ''Intro'' \<and>
   10 \<le> length (py_split (''Intro'' @ ''. '' @ take 500 ''one two three four five six seven eight nine''))"
proof -
  let ?r = "\<lparr>section_title = ''Intro'', content = ''one two three four five six seven eight nine'', page_number = 1,
     document = ''a.pdf'', final_score = 0.35\<rparr>"
  let ?docs = "[\<lparr>filename = ''a.pdf'', sections =
           [\<lparr>section_title = ''Intro'', content = ''one two three four five six seven eight nine'', page_number = 1\<rparr>,
            \<lparr>section_title = ''notes.pdf'', content = ''one two three four five six seven eight nine'', page_number = 2\<rparr>]\<rparr>]"
  have h: "?r \<in> set (get_sections_with_content (\<lambda>t. [(''plan'', 0.5)]) (\<lambda>t. [1]) (\<lambda>a b. 0.5)
        ?docs \<lparr>combined_text = ''Task: plan'', embedding = [1]\<rparr> 5)"
    by (simp add: get_sections_with_content_def extract_dynamic_themes_def dict_of_def
        all_sections_of_def survives_def section_text_def py_split_def is_space_def
        score_section_def theme_scores_def mean_def mk_scored_def select_loop.simps best_of_def
        consider_candidate_def penalized_score_def penalty_def doc_counts_def
        DIVERSITY_PENALTY_def)
  from filtered_never_ranked [OF h] show ?thesis using h by simp
qed

subsection \<open>The final score of a candidate\<close>

text \<open>
  Claim C2. Every candidate, and so every entry of the ranking output, carries
  \<open>final_score = 0.4 * cosine(section, query) + 0.6 * thematic_score\<close>, the section being
  encoded from \<open>title + ". " + content[:500]\<close> and the thematic score being the mean over
  the extracted themes of \<open>cosine(section, theme) * weight\<close>, or 0.0 when no theme was
  extracted; and every section that survives the two filters has such a candidate.
  Scores are real numbers here; the rounding of floating-point arithmetic is not
  modelled.
\<close>

theorem final_score_of_ranked:
  fixes kw enc cos_sim docs req k
  defines "themes \<equiv> extract_dynamic_themes kw (combined_text req)"
  defines "formula \<equiv> (\<lambda>title body.
     0.4 * cos_sim (enc (title @ ''. '' @ take 500 body)) (embedding req) +
     0.6 * (if themes = [] then 0
            else sum_list (map (\<lambda>(phrase, weight).
                     cos_sim (enc (title @ ''. '' @ take 500 body)) (enc phrase) * weight) themes)
                 / real (length themes)))"
  shows "(\<forall>r \<in> set (get_sections_with_content kw enc cos_sim docs req k).
            final_score r = formula (section_title r) (content r)) \<and>
         (\<forall>c \<in> set (all_sections_of enc cos_sim themes (embedding req) docs).
            final_score c = formula (section_title c) (content c)) \<and>
         (\<forall>d \<in> set docs. \<forall>s \<in> set (sections d). survives s \<longrightarrow>
            (\<exists>c \<in> set (all_sections_of enc cos_sim themes (embedding req) docs).
               section_title c = section_title s \<and> content c = content s \<and>
               page_number c = page_number s \<and> document c = filename d \<and>
               final_score c = formula (section_title s) (content s)))"
proof (intro conjI ballI impI)
  have sc: "score_section enc cos_sim themes (embedding req) s = formula (section_title s) (content s)" for s
    unfolding themes_def formula_def
    by (simp add: score_section_formula thematic_mean_def section_text_def)
  show c: "final_score c = formula (section_title c) (content c)"
    if "c \<in> set (all_sections_of enc cos_sim themes (embedding req) docs)" for c
  proof -
    from all_sections_of_mem [OF that] obtain d :: doc and s :: section_rec where
      "c = mk_scored s (filename d) (score_section enc cos_sim themes (embedding req) s)" by blast
    then show ?thesis by (simp add: mk_scored_def sc)
  qed
  show "final_score r = formula (section_title r) (content r)"
    if "r \<in> set (get_sections_with_content kw enc cos_sim docs req k)" for r
  proof -
    from that get_sections_subset [of kw enc cos_sim docs req k]
    have "r \<in> set (all_sections_of enc cos_sim themes (embedding req) docs)"
      unfolding themes_def by blast
    then show ?thesis by (rule c)
  qed
  show "\<exists>c \<in> set (all_sections_of enc cos_sim themes (embedding req) docs).
               section_title c = section_title s \<and> content c = content s \<and>
               page_number c = page_number s \<and> document c = filename d \<and>
               final_score c = formula (section_title s) (content s)"
    if "d \<in> set docs" "s \<in> set (sections d)" "survives s" for d s
  proof -
    have "mk_scored s (filename d) (score_section enc cos_sim themes (embedding req) s)
          \<in> set (all_sections_of enc cos_sim themes (embedding req) docs)"
      using that by (auto simp: all_sections_of_def)
    then show ?thesis by (rule rev_bexI) (simp add: mk_scored_def sc)
  qed
qed


theorem final_score_of_ranked_witness:
  "map final_score
     (get_sections_with_content (\<lambda>t. [(''plan'', 0.5)])
        (\<lambda>t. if take 5 t = ''Intro'' then [1] else [2])
        (\<lambda>a b. if a = [1] then 0.5 else 0.25)
        [\<lparr>filename = ''a.pdf'', sections =
           [\<lparr>section_title = ''Notes'', content = ''one two three four five six seven eight nine'',
             page_number = 1\<rparr>,
            \<lparr>section_title = ''Intro'', content = ''one two three four five six seven eight nine'',
             page_number = 2\<rparr>]\<rparr>]
        \<lparr>combined_text = ''Task: plan'', embedding = [3]\<rparr> 5)
   = [0.35, 0.175]"
proof -
  let ?kw = "\<lambda>t::string. [(''plan'', 0.5::real)]"
  let ?enc = "\<lambda>t::string. if take 5 t = ''Intro'' then [1::real] else [2]"
  let ?cos = "\<lambda>(a::embedding) (b::embedding). if a = [1] then (0.5::real) else 0.25"
  let ?docs = "[\<lparr>filename = ''a.pdf'', sections =
           [\<lparr>section_title = ''Notes'', content = ''one two three four five six seven eight nine'',
             page_number = 1\<rparr>,
            \<lparr>section_title = ''Intro'', content = ''one two three four five six seven eight nine'',
             page_number = 2\<rparr>]\<rparr>]"
  let ?req = "\<lparr>combined_text = ''Task: plan'', embedding = [3]\<rparr>"
  let ?res = "get_sections_with_content ?kw ?enc ?cos ?docs ?req 5"
  have tc: "map (\<lambda>r. (section_title r, content r)) ?res =
            [(''Intro'', ''one two three four five six seven eight nine''),
             (''Notes'', ''one two three four five six seven eight nine'')]"
    by (simp add: get_sections_with_content_def extract_dynamic_themes_def dict_of_def
        all_sections_of_def survives_def section_text_def py_split_def is_space_def
        score_section_def theme_scores_def mean_def mk_scored_def select_loop.simps best_of_def
        consider_candidate_def penalized_score_def penalty_def doc_counts_def
        DIVERSITY_PENALTY_def)
  note w = final_score_of_ranked [where kw = ?kw and enc = ?enc and cos_sim = ?cos
      and docs = ?docs and req = ?req and k = 5, THEN conjunct1]
  have "map final_score ?res =
        map (\<lambda>r. (\<lambda>(t, c). 0.4 * ?cos (?enc (t @ ''. '' @ take 500 c)) (embedding ?req) +
            0.6 * (if extract_dynamic_themes ?kw (combined_text ?req) = [] then 0
                   else sum_list (map (\<lambda>(phrase, weight).
                          ?cos (?enc (t @ ''. '' @ take 500 c)) (?enc phrase) * weight)
                          (extract_dynamic_themes ?kw (combined_text ?req)))
                        / real (length (extract_dynamic_themes ?kw (combined_text ?req)))))
              (section_title r, content r)) ?res"
    by (rule map_cong [OF refl]) (use w in auto)
  also have "\<dots> = map (\<lambda>(t, c). 0.4 * ?cos (?enc (t @ ''. '' @ take 500 c)) (embedding ?req) +
            0.6 * (if extract_dynamic_themes ?kw (combined_text ?req) = [] then 0
                   else sum_list (map (\<lambda>(phrase, weight).
                          ?cos (?enc (t @ ''. '' @ take 500 c)) (?enc phrase) * weight)
                          (extract_dynamic_themes ?kw (combined_text ?req)))
                        / real (length (extract_dynamic_themes ?kw (combined_text ?req)))))
         (map (\<lambda>r. (section_title r, content r)) ?res)"
    by (simp add: comp_def)
  also have "\<dots> = [0.35, 0.175]"
    unfolding tc by (simp add: extract_dynamic_themes_def dict_of_def)
  finally show ?thesis .
qed

subsection \<open>Bounds of the selection\<close>

text \<open>
  The result has at most \<open>k\<close> entries and no title twice, whatever the scores are.
\<close>

lemma foldl_consider_not_seen:
  "fst (foldl (consider_candidate rs seen) best cs) = Some b \<Longrightarrow>
   fst best = Some b \<or> section_title b \<notin> seen"
proof (induction cs arbitrary: best)
  case Nil
  then show ?case by simp
next
  case (Cons c cs)
  from Cons.prems have "fst (foldl (consider_candidate rs seen) (consider_candidate rs seen best c) cs) = Some b"
    by simp
  from Cons.IH [OF this]
  show ?case by (auto simp: consider_candidate_def split: if_splits)
qed

lemma best_of_not_seen: "best_of rs seen cs = Some b \<Longrightarrow> section_title b \<notin> seen"
  using foldl_consider_not_seen [of rs seen "(None, -1.0)" cs b] by (simp add: best_of_def)

lemma select_loop_length:
  "length (select_loop k rs seen cs) \<le> max (length rs) (nat k)"
proof (induction k rs seen cs rule: select_loop.induct)
  case (1 k rs seen cs)
  show ?case
  proof (cases "int (length rs) < k \<and> cs \<noteq> []")
    case False
    then show ?thesis by (subst select_loop.simps) auto
  next
    case True
    show ?thesis
    proof (cases "best_of rs seen cs")
      case None
      with True show ?thesis by (subst select_loop.simps) auto
    next
      case (Some b)
      from "1.IH" [OF True Some]
      have "length (select_loop k (rs @ [b]) (insert (section_title b) seen) (remove1 b cs))
            \<le> max (length (rs @ [b])) (nat k)" .
      moreover from True have "max (length (rs @ [b])) (nat k) \<le> max (length rs) (nat k)" by auto
      ultimately show ?thesis using True Some by (subst select_loop.simps) auto
    qed
  qed
qed

lemma select_loop_distinct:
  "distinct (map section_title rs) \<Longrightarrow> section_title ` set rs \<subseteq> seen \<Longrightarrow>
   distinct (map section_title (select_loop k rs seen cs))"
proof (induction k rs seen cs rule: select_loop.induct)
  case (1 k rs seen cs)
  show ?case
  proof (cases "int (length rs) < k \<and> cs \<noteq> []")
    case False
    with "1.prems" show ?thesis by (subst select_loop.simps) auto
  next
    case True
    show ?thesis
    proof (cases "best_of rs seen cs")
      case None
      with True "1.prems" show ?thesis by (subst select_loop.simps) auto
    next
      case (Some b)
      from best_of_not_seen [OF Some] "1.prems"
      have d: "distinct (map section_title (rs @ [b]))" by auto
      from "1.prems" have s: "section_title ` set (rs @ [b]) \<subseteq> insert (section_title b) seen" by auto
      from "1.IH" [OF True Some d s] True Some show ?thesis by (subst select_loop.simps) auto
    qed
  qed
qed

lemma get_sections_bounds:
  "length (get_sections_with_content kw enc cos_sim docs req k) \<le> nat k \<and>
   distinct (map section_title (get_sections_with_content kw enc cos_sim docs req k))"
  using select_loop_length [of k "[]" "{}"] select_loop_distinct [of "[]" "{}" k]
  by (simp add: get_sections_with_content_def Let_def)

subsection \<open>Every pick is a maximum of its round\<close>

lemma select_loop_rounds:
  assumes "\<forall>e \<in> E. section_title e \<notin> seen \<longrightarrow> e \<in> set cs"
  shows "\<exists>ext. select_loop k rs seen cs = rs @ ext \<and>
           (\<forall>j < length ext. \<forall>e \<in> E.
              section_title e \<notin> seen \<union> section_title ` set (take j ext) \<longrightarrow>
              penalized_score (rs @ take j ext) e \<le> penalized_score (rs @ take j ext) (ext ! j))"
  using assms
proof (induction k rs seen cs rule: select_loop.induct)
  case (1 k rs seen cs)
  show ?case
  proof (cases "int (length rs) < k \<and> cs \<noteq> []")
    case False
    then have "select_loop k rs seen cs = rs @ []" by (subst select_loop.simps) auto
    then show ?thesis by (intro exI [of _ "[]"]) simp
  next
    case True
    show ?thesis
    proof (cases "best_of rs seen cs")
      case None
      with True have "select_loop k rs seen cs = rs @ []" by (subst select_loop.simps) auto
      then show ?thesis by (intro exI [of _ "[]"]) simp
    next
      case (Some b)
      have inv: "\<forall>e \<in> E. section_title e \<notin> insert (section_title b) seen \<longrightarrow> e \<in> set (remove1 b cs)"
      proof (intro ballI impI)
        fix e assume e: "e \<in> E" "section_title e \<notin> insert (section_title b) seen"
        with "1.prems" have "e \<in> set cs" by auto
        moreover from e have "e \<noteq> b" by auto
        ultimately show "e \<in> set (remove1 b cs)" by simp
      qed
      from "1.IH" [OF True Some inv] obtain ext' where
        l: "select_loop k (rs @ [b]) (insert (section_title b) seen) (remove1 b cs) = (rs @ [b]) @ ext'"
        and m: "\<forall>j < length ext'. \<forall>e \<in> E.
              section_title e \<notin> insert (section_title b) seen \<union> section_title ` set (take j ext') \<longrightarrow>
              penalized_score ((rs @ [b]) @ take j ext') e
                \<le> penalized_score ((rs @ [b]) @ take j ext') (ext' ! j)"
        by blast
      from True Some l have r: "select_loop k rs seen cs = rs @ (b # ext')"
        by (subst select_loop.simps) simp
      have "\<forall>j < length (b # ext'). \<forall>e \<in> E.
              section_title e \<notin> seen \<union> section_title ` set (take j (b # ext')) \<longrightarrow>
              penalized_score (rs @ take j (b # ext')) e
                \<le> penalized_score (rs @ take j (b # ext')) ((b # ext') ! j)"
      proof (intro allI impI ballI)
        fix j e
        assume j: "j < length (b # ext')" and e: "e \<in> E"
          and t: "section_title e \<notin> seen \<union> section_title ` set (take j (b # ext'))"
        show "penalized_score (rs @ take j (b # ext')) e
                \<le> penalized_score (rs @ take j (b # ext')) ((b # ext') ! j)"
        proof (cases j)
          case 0
          with t have "section_title e \<notin> seen" by simp
          with e "1.prems" have "e \<in> set cs" by auto
          from best_of_max [OF Some this \<open>section_title e \<notin> seen\<close>] 0 show ?thesis by simp
        next
          case (Suc j')
          with j have j': "j' < length ext'" by simp
          from t Suc have "section_title e \<notin> insert (section_title b) seen \<union> section_title ` set (take j' ext')"
            by auto
          with m j' e have "penalized_score ((rs @ [b]) @ take j' ext') e
                \<le> penalized_score ((rs @ [b]) @ take j' ext') (ext' ! j')" by blast
          with Suc show ?thesis by simp
        qed
      qed
      with r show ?thesis by blast
    qed
  qed
qed

lemma get_sections_rounds:
  fixes kw enc cos_sim docs req k
  defines "res \<equiv> get_sections_with_content kw enc cos_sim docs req k"
  defines "cands \<equiv> all_sections_of enc cos_sim (extract_dynamic_themes kw (combined_text req))
                     (embedding req) docs"
  assumes "i < length res" "e \<in> set cands" "section_title e \<notin> section_title ` set (take i res)"
  shows "penalized_score (take i res) e \<le> penalized_score (take i res) (res ! i)"
proof -
  have inv: "\<forall>e \<in> set cands. section_title e \<notin> {} \<longrightarrow> e \<in> set (sort_key (\<lambda>s. - final_score s) cands)"
    by simp
  from select_loop_rounds [OF inv, of k "[]"] obtain ext where
    l: "select_loop k [] {} (sort_key (\<lambda>s. - final_score s) cands) = ext"
    and m: "\<forall>j < length ext. \<forall>e \<in> set cands.
              section_title e \<notin> section_title ` set (take j ext) \<longrightarrow>
              penalized_score (take j ext) e \<le> penalized_score (take j ext) (ext ! j)"
    by auto
  from assms(3) have "cands \<noteq> []"
    by (auto simp: res_def cands_def get_sections_with_content_def Let_def)
  with l have "res = ext"
    by (simp add: res_def cands_def get_sections_with_content_def Let_def)
  with m assms(3-5) show ?thesis by blast
qed

lemma penalty_two_or_more:
  "2 \<le> doc_counts rs (document c) \<Longrightarrow> penalty rs c \<le> - 0.2"
proof -
  assume "2 \<le> doc_counts rs (document c)"
  then have "2 \<le> real (doc_counts rs (document c))" by simp
  then have "real (doc_counts rs (document c)) * 0.6 \<ge> 1.2" by simp
  then show ?thesis by (simp add: penalty_def DIVERSITY_PENALTY_def)
qed

text \<open>
  Claim C4, as stated, fails: a candidate with a negative final score gains from the
  negative factor. Document \<open>a.pdf\<close> has the final scores 0.36, 0.32 and -0.36, document
  \<open>b.pdf\<close> has 0.04. After two picks from \<open>a.pdf\<close> its third section stands at
  \<open>-0.36 * (-0.2) = 0.072\<close> and is picked, while the section of \<open>b.pdf\<close> is eligible with
  the positive penalized score 0.04.
\<close>

theorem third_pick_same_document:
  "get_sections_with_content (\<lambda>t. [])
        (\<lambda>t. if take 2 t = ''A1'' then [1] else if take 2 t = ''A2'' then [2] else if take 2 t = ''A3'' then [3] else [4])
        (\<lambda>a b. if a = [1] then 0.9 else if a = [2] then 0.8 else if a = [3] then - 0.9 else 0.1)
        [\<lparr>filename = ''a.pdf'', sections = [\<lparr>section_title = ''A1'', content = ''one two three four five six seven eight nine'', page_number = 1\<rparr>, \<lparr>section_title = ''A2'', content = ''one two three four five six seven eight nine'', page_number = 2\<rparr>, \<lparr>section_title = ''A3'', content = ''one two three four five six seven eight nine'', page_number = 3\<rparr>]\<rparr>, \<lparr>filename = ''b.pdf'', sections = [\<lparr>section_title = ''B1'', content = ''one two three four five six seven eight nine'', page_number = 1\<rparr>]\<rparr>]
        \<lparr>combined_text = ''Task: plan'', embedding = [5]\<rparr> 3
   = [\<lparr>section_title = ''A1'', content = ''one two three four five six seven eight nine'', page_number = 1, document = ''a.pdf'', final_score = 0.36\<rparr>,
      \<lparr>section_title = ''A2'', content = ''one two three four five six seven eight nine'', page_number = 2, document = ''a.pdf'', final_score = 0.32\<rparr>,
      \<lparr>section_title = ''A3'', content = ''one two three four five six seven eight nine'', page_number = 3, document = ''a.pdf'', final_score = - 0.36\<rparr>] \<and>
   penalized_score
     [\<lparr>section_title = ''A1'', content = ''one two three four five six seven eight nine'', page_number = 1, document = ''a.pdf'', final_score = 0.36\<rparr>,
      \<lparr>section_title = ''A2'', content = ''one two three four five six seven eight nine'', page_number = 2, document = ''a.pdf'', final_score = 0.32\<rparr>]
     \<lparr>section_title = ''B1'', content = ''one two three four five six seven eight nine'', page_number = 1, document = ''b.pdf'', final_score = 0.04\<rparr> = 0.04"
  by (simp add: get_sections_with_content_def extract_dynamic_themes_def
        all_sections_of_def survives_def section_text_def py_split_def is_space_def
        score_section_def mk_scored_def select_loop.simps best_of_def
        consider_candidate_def penalized_score_def penalty_def doc_counts_def
        DIVERSITY_PENALTY_def)

text \<open>
  Claim C4, amended. Every pick has the greatest penalized score among the candidates
  whose title is not yet chosen. When a document has 2 selections, its candidates have
  the penalty factor \<open>1 - 2 * 0.60 = -0.2\<close>; one with a positive final score has a
  negative penalized score, lies strictly below every eligible candidate with a positive
  penalized score, and is not picked while such a candidate remains. So, while such a
  candidate remains, a pick with a non-negative final score comes from a document with
  fewer than 2 selections, and a pick from a document with 2 or more selections has a
  negative final score.
\<close>

theorem third_pick_needs_negative_score:
  fixes kw enc cos_sim docs req k
  defines "res \<equiv> get_sections_with_content kw enc cos_sim docs req k"
  defines "cands \<equiv> all_sections_of enc cos_sim (extract_dynamic_themes kw (combined_text req))
                     (embedding req) docs"
  assumes i: "i < length res"
    and e: "e \<in> set cands" "section_title e \<notin> section_title ` set (take i res)"
  shows "penalized_score (take i res) e \<le> penalized_score (take i res) (res ! i) \<and>
         (0 < penalized_score (take i res) e \<longrightarrow>
            (2 \<le> doc_counts (take i res) (document (res ! i)) \<longrightarrow> final_score (res ! i) < 0) \<and>
            (0 \<le> final_score (res ! i) \<longrightarrow> doc_counts (take i res) (document (res ! i)) < 2) \<and>
            (\<forall>c. doc_counts (take i res) (document c) = 2 \<longrightarrow>
                 penalty (take i res) c = - 0.2 \<and>
                 (0 < final_score c \<longrightarrow>
                    penalized_score (take i res) c < 0 \<and>
                    penalized_score (take i res) c < penalized_score (take i res) e \<and>
                    res ! i \<noteq> c)))"
proof (intro conjI impI)
  from get_sections_rounds [of i kw enc cos_sim docs req k e] i e
  show m: "penalized_score (take i res) e \<le> penalized_score (take i res) (res ! i)"
    by (simp add: res_def cands_def)
  assume p: "0 < penalized_score (take i res) e"
  with m have pos: "0 < penalized_score (take i res) (res ! i)" by simp
  show neg: "final_score (res ! i) < 0" if "2 \<le> doc_counts (take i res) (document (res ! i))"
  proof (rule ccontr)
    assume "\<not> final_score (res ! i) < 0"
    then have "0 \<le> final_score (res ! i)" by simp
    moreover from penalty_two_or_more [OF that] have "penalty (take i res) (res ! i) \<le> 0" by simp
    ultimately have "penalized_score (take i res) (res ! i) \<le> 0"
      by (simp add: penalized_score_def mult_nonneg_nonpos)
    with pos show False by simp
  qed
  show "doc_counts (take i res) (document (res ! i)) < 2" if "0 \<le> final_score (res ! i)"
  proof (rule ccontr)
    assume "\<not> doc_counts (take i res) (document (res ! i)) < 2"
    then have "2 \<le> doc_counts (take i res) (document (res ! i))" by simp
    from neg [OF this] that show False by simp
  qed
  show "\<forall>c. doc_counts (take i res) (document c) = 2 \<longrightarrow>
                 penalty (take i res) c = - 0.2 \<and>
                 (0 < final_score c \<longrightarrow>
                    penalized_score (take i res) c < 0 \<and>
                    penalized_score (take i res) c < penalized_score (take i res) e \<and>
                    res ! i \<noteq> c)"
  proof (intro allI impI)
    fix c :: scored assume c: "doc_counts (take i res) (document c) = 2"
    then have f: "penalty (take i res) c = - 0.2"
      by (simp add: penalty_def DIVERSITY_PENALTY_def)
    have "penalized_score (take i res) c < 0 \<and>
          penalized_score (take i res) c < penalized_score (take i res) e \<and> res ! i \<noteq> c"
      if "0 < final_score c"
    proof -
      from f that have n: "penalized_score (take i res) c < 0"
        by (simp add: penalized_score_def mult_pos_neg)
      with p pos show ?thesis by auto
    qed
    with f show "penalty (take i res) c = - 0.2 \<and>
                 (0 < final_score c \<longrightarrow>
                    penalized_score (take i res) c < 0 \<and>
                    penalized_score (take i res) c < penalized_score (take i res) e \<and>
                    res ! i \<noteq> c)"
      by blast
  qed
qed

theorem third_pick_needs_negative_score_witness:
  "final_score
     (get_sections_with_content (\<lambda>t. [])
        (\<lambda>t. if take 2 t = ''A1'' then [1] else if take 2 t = ''A2'' then [2] else if take 2 t = ''A3'' then [3] else [4])
        (\<lambda>a b. if a = [1] then 0.9 else if a = [2] then 0.8 else if a = [3] then - 0.9 else 0.1)
        [\<lparr>filename = ''a.pdf'', sections = [\<lparr>section_title = ''A1'', content = ''one two three four five six seven eight nine'', page_number = 1\<rparr>, \<lparr>section_title = ''A2'', content = ''one two three four five six seven eight nine'', page_number = 2\<rparr>, \<lparr>section_title = ''A3'', content = ''one two three four five six seven eight nine'', page_number = 3\<rparr>]\<rparr>, \<lparr>filename = ''b.pdf'', sections = [\<lparr>section_title = ''B1'', content = ''one two three four five six seven eight nine'', page_number = 1\<rparr>]\<rparr>]
        \<lparr>combined_text = ''Task: plan'', embedding = [5]\<rparr> 3 ! 2) < 0 \<and>
   document
     (get_sections_with_content (\<lambda>t. [])
        (\<lambda>t. if take 2 t = ''A1'' then [1] else if take 2 t = ''A2'' then [2] else if take 2 t = ''A3'' then [3] else [4])
        (\<lambda>a b. if a = [1] then 0.9 else if a = [2] then 0.8 else if a = [3] then - 0.9 else 0.1)
        [\<lparr>filename = ''a.pdf'', sections = [\<lparr>section_title = ''A1'', content = ''one two three four five six seven eight nine'', page_number = 1\<rparr>, \<lparr>section_title = ''A2'', content = ''one two three four five six seven eight nine'', page_number = 2\<rparr>, \<lparr>section_title = ''A3'', content = ''one two three four five six seven eight nine'', page_number = 3\<rparr>]\<rparr>, \<lparr>filename = ''b.pdf'', sections = [\<lparr>section_title = ''B1'', content = ''one two three four five six seven eight nine'', page_number = 1\<rparr>]\<rparr>]
        \<lparr>combined_text = ''Task: plan'', embedding = [5]\<rparr> 3 ! 2) = ''a.pdf''"
proof -
  let ?res = "get_sections_with_content (\<lambda>t. [])
        (\<lambda>t. if take 2 t = ''A1'' then [1] else if take 2 t = ''A2'' then [2] else if take 2 t = ''A3'' then [3] else [4])
        (\<lambda>a b. if a = [1] then 0.9 else if a = [2] then 0.8 else if a = [3] then - 0.9 else 0.1)
        [\<lparr>filename = ''a.pdf'', sections = [\<lparr>section_title = ''A1'', content = ''one two three four five six seven eight nine'', page_number = 1\<rparr>, \<lparr>section_title = ''A2'', content = ''one two three four five six seven eight nine'', page_number = 2\<rparr>, \<lparr>section_title = ''A3'', content = ''one two three four five six seven eight nine'', page_number = 3\<rparr>]\<rparr>, \<lparr>filename = ''b.pdf'', sections = [\<lparr>section_title = ''B1'', content = ''one two three four five six seven eight nine'', page_number = 1\<rparr>]\<rparr>]
        \<lparr>combined_text = ''Task: plan'', embedding = [5]\<rparr> 3"
  let ?kw = "(\<lambda>t. []) :: string \<Rightarrow> (string \<times> real) list"
  let ?enc = "(\<lambda>t. if take 2 t = ''A1'' then [1] else if take 2 t = ''A2'' then [2] else if take 2 t = ''A3'' then [3] else [4]) :: string \<Rightarrow> embedding"
  let ?cos = "(\<lambda>a b. if a = [1] then 0.9 else if a = [2] then 0.8 else if a = [3] then - 0.9 else 0.1) :: embedding \<Rightarrow> embedding \<Rightarrow> real"
  let ?docs = "[\<lparr>filename = ''a.pdf'', sections = [\<lparr>section_title = ''A1'', content = ''one two three four five six seven eight nine'', page_number = 1\<rparr>, \<lparr>section_title = ''A2'', content = ''one two three four five six seven eight nine'', page_number = 2\<rparr>, \<lparr>section_title = ''A3'', content = ''one two three four five six seven eight nine'', page_number = 3\<rparr>]\<rparr>, \<lparr>filename = ''b.pdf'', sections = [\<lparr>section_title = ''B1'', content = ''one two three four five six seven eight nine'', page_number = 1\<rparr>]\<rparr>]"
  let ?req = "\<lparr>combined_text = ''Task: plan'', embedding = [5]\<rparr>"
  let ?b1 = "\<lparr>section_title = ''B1'', content = ''one two three four five six seven eight nine'', page_number = 1, document = ''b.pdf'', final_score = 0.04\<rparr>"
  have res: "?res = [\<lparr>section_title = ''A1'', content = ''one two three four five six seven eight nine'', page_number = 1, document = ''a.pdf'', final_score = 0.36\<rparr>,
      \<lparr>section_title = ''A2'', content = ''one two three four five six seven eight nine'', page_number = 2, document = ''a.pdf'', final_score = 0.32\<rparr>,
      \<lparr>section_title = ''A3'', content = ''one two three four five six seven eight nine'', page_number = 3, document = ''a.pdf'', final_score = - 0.36\<rparr>]"
    by (simp add: get_sections_with_content_def extract_dynamic_themes_def
        all_sections_of_def survives_def section_text_def py_split_def is_space_def
        score_section_def mk_scored_def select_loop.simps best_of_def
        consider_candidate_def penalized_score_def penalty_def doc_counts_def
        DIVERSITY_PENALTY_def)
  have i: "2 < length ?res" unfolding res by simp
  have e1: "?b1 \<in> set (all_sections_of ?enc ?cos (extract_dynamic_themes ?kw (combined_text ?req))
                     (embedding ?req) ?docs)"
    by (simp add: extract_dynamic_themes_def all_sections_of_def survives_def section_text_def
        py_split_def is_space_def score_section_def mk_scored_def)
  have e2: "section_title ?b1 \<notin> section_title ` set (take 2 ?res)" unfolding res by simp
  have e3: "0 < penalized_score (take 2 ?res) ?b1"
    unfolding res by (simp add: penalized_score_def penalty_def doc_counts_def DIVERSITY_PENALTY_def)
  have c: "2 \<le> doc_counts (take 2 ?res) (document (?res ! 2))"
    unfolding res by (simp add: doc_counts_def)
  from third_pick_needs_negative_score [OF i e1 e2, THEN conjunct2, THEN mp, OF e3,
      THEN conjunct1, THEN mp, OF c]
  have "final_score (?res ! 2) < 0" .
  moreover have "document (?res ! 2) = ''a.pdf''" unfolding res by simp
  ultimately show ?thesis by (rule conjI)
qed

subsection \<open>The starting value of \<open>best_score\<close>\<close>

text \<open>
  Claim C1. The claim says that a round selects the eligible candidate with the maximum
  penalized score and that the loop stops early only when no eligible candidate remains.
  The inner loop starts from \<open>best_score = -1.0\<close> and replaces the best candidate only on
  a strictly greater score, so a round in which every eligible candidate has a penalized
  score of -1.0 or less selects nothing and ends the loop. With one document of five
  sections, every similarity 0.8 and one theme of weight 0.9, every final score is 0.752;
  the fifth round finds the last section eligible at \<open>0.752 * (1 - 4 * 0.60) = -1.0528\<close>
  and returns four sections for \<open>k = 5\<close>.
\<close>

theorem selection_stops_below_sentinel:
  "map section_title
     (get_sections_with_content (\<lambda>t. [(''plan'', 0.9)]) (\<lambda>t. [1]) (\<lambda>a b. 0.8)
        [\<lparr>filename = ''a.pdf'', sections =
           [\<lparr>section_title = ''T1'', content = ''one two three four five six seven eight nine'', page_number = 1\<rparr>,
            \<lparr>section_title = ''T2'', content = ''one two three four five six seven eight nine'', page_number = 2\<rparr>,
            \<lparr>section_title = ''T3'', content = ''one two three four five six seven eight nine'', page_number = 3\<rparr>,
            \<lparr>section_title = ''T4'', content = ''one two three four five six seven eight nine'', page_number = 4\<rparr>,
            \<lparr>section_title = ''T5'', content = ''one two three four five six seven eight nine'', page_number = 5\<rparr>]\<rparr>]
        \<lparr>combined_text = ''Task: plan'', embedding = [1]\<rparr> 5)
   = [''T1'', ''T2'', ''T3'', ''T4'']"
  by (simp add: get_sections_with_content_def extract_dynamic_themes_def dict_of_def
        all_sections_of_def survives_def section_text_def py_split_def is_space_def
        score_section_def theme_scores_def mean_def mk_scored_def select_loop.simps best_of_def
        consider_candidate_def penalized_score_def penalty_def doc_counts_def
        DIVERSITY_PENALTY_def)

section \<open>Properties of the sub-section refiner\<close>

lemma argmax_acc_props:
  assumes "length ys = i" "bi < i" "ys ! bi = bv"
    and "\<forall>j<i. ys ! j \<le> bv" and "\<forall>j<bi. ys ! j < bv"
  shows "argmax_acc bi bv i xs < i + length xs \<and>
         (\<forall>j < i + length xs. (ys @ xs) ! j \<le> (ys @ xs) ! argmax_acc bi bv i xs) \<and>
         (\<forall>j < argmax_acc bi bv i xs. (ys @ xs) ! j < (ys @ xs) ! argmax_acc bi bv i xs)"
  using assms
proof (induction xs arbitrary: ys i bi bv)
  case Nil
  then show ?case by auto
next
  case (Cons x xs)
  show ?case
  proof (cases "x > bv")
    case True
    have l: "length (ys @ [x]) = Suc i" using Cons.prems(1) by simp
    have a: "i < Suc i" by simp
    have b: "(ys @ [x]) ! i = x" using Cons.prems(1) by (simp add: nth_append)
    have c: "\<forall>j<Suc i. (ys @ [x]) ! j \<le> x"
      using Cons.prems True by (auto simp: nth_append less_Suc_eq intro: less_imp_le order_trans)
    have d: "\<forall>j<i. (ys @ [x]) ! j < x"
      using Cons.prems True by (auto simp: nth_append intro: le_less_trans)
    from Cons.IH [OF l a b c d] True show ?thesis by simp
  next
    case False
    have l: "length (ys @ [x]) = Suc i" using Cons.prems(1) by simp
    have a: "bi < Suc i" using Cons.prems(2) by simp
    have b: "(ys @ [x]) ! bi = bv" using Cons.prems by (simp add: nth_append)
    have c: "\<forall>j<Suc i. (ys @ [x]) ! j \<le> bv"
      using Cons.prems False by (auto simp: nth_append less_Suc_eq)
    have d: "\<forall>j<bi. (ys @ [x]) ! j < bv"
      using Cons.prems by (auto simp: nth_append)
    from Cons.IH [OF l a b c d] False show ?thesis by simp
  qed
qed

lemma np_argmax_props:
  assumes "xs \<noteq> []"
  shows "\<exists>i. np_argmax xs = Some i \<and> i < length xs \<and>
         (\<forall>j < length xs. xs ! j \<le> xs ! i) \<and> (\<forall>j < i. xs ! j < xs ! i)"
proof -
  from assms obtain x rest where xs: "xs = x # rest" by (cases xs) auto
  have "argmax_acc 0 x 1 rest < 1 + length rest \<and>
         (\<forall>j < 1 + length rest. ([x] @ rest) ! j \<le> ([x] @ rest) ! argmax_acc 0 x 1 rest) \<and>
         (\<forall>j < argmax_acc 0 x 1 rest. ([x] @ rest) ! j < ([x] @ rest) ! argmax_acc 0 x 1 rest)"
    by (rule argmax_acc_props) auto
  with xs show ?thesis by (simp add: np_argmax_def)
qed

lemma py_slice_nth:
  "b \<le> length xs \<Longrightarrow> py_slice xs a b = map (\<lambda>j. xs ! j) [a ..< b]"
  unfolding py_slice_def
  by (rule nth_equalityI) auto

lemma refine_text_window:
  fixes tok enc cos_sim q c
  defines "sents \<equiv> usable_sentences tok c"
  defines "score \<equiv> (\<lambda>s. cos_sim (enc s) q)"
  shows "(\<forall>x \<in> set sents. \<exists>s \<in> set (tok c). x = py_strip s \<and> 4 < length (py_split x)) \<and>
         (\<forall>s \<in> set (tok c). 4 < length (py_split (py_strip s)) \<longrightarrow> py_strip s \<in> set sents) \<and>
         (length sents < 3 \<longrightarrow> refine_text tok enc cos_sim q c = Inr c) \<and>
         (3 \<le> length sents \<longrightarrow>
            (\<exists>i < length sents.
               (\<forall>j < length sents. score (sents ! j) \<le> score (sents ! i)) \<and>
               (\<forall>j < i. score (sents ! j) < score (sents ! i)) \<and>
               refine_text tok enc cos_sim q c =
                 Inr (py_join '' '' (map (\<lambda>j. sents ! j)
                        [nat (max 0 (int i - 1)) ..< nat (min (int (length sents)) (int i + 2))]))))"
proof (intro conjI impI)
  show "\<forall>x \<in> set sents. \<exists>s \<in> set (tok c). x = py_strip s \<and> 4 < length (py_split x)"
    by (auto simp: sents_def usable_sentences_def)
  show "\<forall>s \<in> set (tok c). 4 < length (py_split (py_strip s)) \<longrightarrow> py_strip s \<in> set sents"
    by (auto simp: sents_def usable_sentences_def)
  show "refine_text tok enc cos_sim q c = Inr c" if "length sents < 3"
    using that by (simp add: refine_text_def sents_def Let_def)
  show "\<exists>i < length sents.
               (\<forall>j < length sents. score (sents ! j) \<le> score (sents ! i)) \<and>
               (\<forall>j < i. score (sents ! j) < score (sents ! i)) \<and>
               refine_text tok enc cos_sim q c =
                 Inr (py_join '' '' (map (\<lambda>j. sents ! j)
                        [nat (max 0 (int i - 1)) ..< nat (min (int (length sents)) (int i + 2))]))"
    if n: "3 \<le> length sents"
  proof -
    let ?sc = "map (\<lambda>e. cos_sim e q) (map enc sents)"
    from n have "?sc \<noteq> []" by auto
    from np_argmax_props [OF this] obtain i where
      i: "np_argmax ?sc = Some i" "i < length ?sc"
        "\<forall>j < length ?sc. ?sc ! j \<le> ?sc ! i" "\<forall>j < i. ?sc ! j < ?sc ! i"
      by blast
    from i(2) have il: "i < length sents" by simp
    have le: "nat (min (int (length sents)) (int i + 2)) \<le> length sents" by simp
    have r: "refine_text tok enc cos_sim q c =
       Inr (py_join '' '' (py_slice sents (nat (max 0 (int i - 1)))
              (nat (min (int (length sents)) (int i + 2)))))"
      using n i(1) by (simp add: refine_text_def sents_def [symmetric] Let_def)
    have a: "\<forall>j < length sents. score (sents ! j) \<le> score (sents ! i)"
      using i(3) il by (simp add: score_def)
    have b: "\<forall>j < i. score (sents ! j) < score (sents ! i)"
      using i(4) il by (simp add: score_def)
    from r a b il show ?thesis by (auto simp: py_slice_nth [OF le])
  qed
qed

lemma refine_text_Inr: "\<exists>t. refine_text tok enc cos_sim q c = Inr t"
proof (cases "length (usable_sentences tok c) < 3")
  case True
  with refine_text_window [where tok = tok and c = c and cos_sim = cos_sim and enc = enc and q = q]
  show ?thesis by blast
next
  case False
  then have "3 \<le> length (usable_sentences tok c)" by simp
  with refine_text_window [where tok = tok and c = c and cos_sim = cos_sim and enc = enc and q = q]
  show ?thesis by blast
qed

lemma analyze_loop_result:
  "\<exists>outs. analyze_loop tok enc cos_sim q secs = Inr outs \<and> length outs = length secs \<and>
     (\<forall>j < length secs.
        out_document (outs ! j) = document (secs ! j) \<and>
        out_page_number (outs ! j) = page_number (secs ! j) \<and>
        refine_text tok enc cos_sim q (content (secs ! j)) = Inr (refined_text (outs ! j)))"
proof (induction secs)
  case Nil
  then show ?case by simp
next
  case (Cons s secs)
  then obtain outs where o: "analyze_loop tok enc cos_sim q secs = Inr outs"
    "length outs = length secs"
    "\<forall>j < length secs.
        out_document (outs ! j) = document (secs ! j) \<and>
        out_page_number (outs ! j) = page_number (secs ! j) \<and>
        refine_text tok enc cos_sim q (content (secs ! j)) = Inr (refined_text (outs ! j))"
    by blast
  from refine_text_Inr [of tok enc cos_sim q "content s"] obtain t where
    t: "refine_text tok enc cos_sim q (content s) = Inr t" ..
  let ?o = "\<lparr>out_document = document s, refined_text = t, out_page_number = page_number s\<rparr>"
  from o(1) t have a: "analyze_loop tok enc cos_sim q (s # secs) = Inr (?o # outs)" by simp
  have "\<forall>j < length (s # secs).
        out_document ((?o # outs) ! j) = document ((s # secs) ! j) \<and>
        out_page_number ((?o # outs) ! j) = page_number ((s # secs) ! j) \<and>
        refine_text tok enc cos_sim q (content ((s # secs) ! j)) = Inr (refined_text ((?o # outs) ! j))"
  proof (intro allI impI)
    fix j assume "j < length (s # secs)"
    then show "out_document ((?o # outs) ! j) = document ((s # secs) ! j) \<and>
        out_page_number ((?o # outs) ! j) = page_number ((s # secs) ! j) \<and>
        refine_text tok enc cos_sim q (content ((s # secs) ! j)) = Inr (refined_text ((?o # outs) ! j))"
      using o(3) t by (cases j) simp_all
  qed
  with a o(2) show ?case by (intro exI [of _ "?o # outs"]) simp
qed

text \<open>
  Claim C7. \<open>analyze_subsections\<close> never raises and returns one entry per section, in
  order, with the section's document and page. The usable sentences of a section are,
  in the tokenizer's order, the stripped sentences that have more than 4 words. With
  fewer than 3 of them the refined text is the content itself. With \<open>n \<ge> 3\<close> of them,
  \<open>i\<close> being the first index of the maximum similarity to the query embedding, the
  refined text is the sentences with indices in \<open>[max(0, i - 1), min(n, i + 2))\<close> joined
  with single spaces.
\<close>

theorem analyze_subsections_result:
  fixes tok enc cos_sim secs req
  defines "usable \<equiv> (\<lambda>c. map py_strip (filter (\<lambda>x. 4 < length (py_split (py_strip x))) (tok c)))"
  defines "score \<equiv> (\<lambda>x. cos_sim (enc x) (embedding req))"
  shows "\<exists>outs. analyze_subsections tok enc cos_sim secs req = Inr outs \<and>
     length outs = length secs \<and>
     (\<forall>j < length secs.
        out_document (outs ! j) = document (secs ! j) \<and>
        out_page_number (outs ! j) = page_number (secs ! j) \<and>
        (length (usable (content (secs ! j))) < 3 \<longrightarrow>
           refined_text (outs ! j) = content (secs ! j)) \<and>
        (3 \<le> length (usable (content (secs ! j))) \<longrightarrow>
           (\<exists>i < length (usable (content (secs ! j))).
              (\<forall>m < length (usable (content (secs ! j))).
                 score (usable (content (secs ! j)) ! m) \<le> score (usable (content (secs ! j)) ! i)) \<and>
              (\<forall>m < i. score (usable (content (secs ! j)) ! m) < score (usable (content (secs ! j)) ! i)) \<and>
              refined_text (outs ! j) =
                py_join '' '' (map (\<lambda>m. usable (content (secs ! j)) ! m)
                  [nat (max 0 (int i - 1)) ..<
                   nat (min (int (length (usable (content (secs ! j))))) (int i + 2))]))))"
proof -
  have u: "usable c = usable_sentences tok c" for c
    by (simp add: usable_def usable_sentences_def)
  from analyze_loop_result [of tok enc cos_sim "embedding req" secs] obtain outs where
    o: "analyze_loop tok enc cos_sim (embedding req) secs = Inr outs" "length outs = length secs"
    "\<forall>j < length secs.
        out_document (outs ! j) = document (secs ! j) \<and>
        out_page_number (outs ! j) = page_number (secs ! j) \<and>
        refine_text tok enc cos_sim (embedding req) (content (secs ! j)) = Inr (refined_text (outs ! j))"
    by blast
  have a: "analyze_subsections tok enc cos_sim secs req = Inr outs"
  proof (cases "secs = []")
    case True
    with o(2) show ?thesis by (simp add: analyze_subsections_def)
  next
    case False
    with o(1) show ?thesis by (simp add: analyze_subsections_def)
  qed
  have "out_document (outs ! j) = document (secs ! j) \<and>
        out_page_number (outs ! j) = page_number (secs ! j) \<and>
        (length (usable (content (secs ! j))) < 3 \<longrightarrow>
           refined_text (outs ! j) = content (secs ! j)) \<and>
        (3 \<le> length (usable (content (secs ! j))) \<longrightarrow>
           (\<exists>i < length (usable (content (secs ! j))).
              (\<forall>m < length (usable (content (secs ! j))).
                 score (usable (content (secs ! j)) ! m) \<le> score (usable (content (secs ! j)) ! i)) \<and>
              (\<forall>m < i. score (usable (content (secs ! j)) ! m) < score (usable (content (secs ! j)) ! i)) \<and>
              refined_text (outs ! j) =
                py_join '' '' (map (\<lambda>m. usable (content (secs ! j)) ! m)
                  [nat (max 0 (int i - 1)) ..<
                   nat (min (int (length (usable (content (secs ! j))))) (int i + 2))])))"
    if j: "j < length secs" for j
  proof -
    from o(3) j have d: "out_document (outs ! j) = document (secs ! j)"
      and p: "out_page_number (outs ! j) = page_number (secs ! j)"
      and r: "refine_text tok enc cos_sim (embedding req) (content (secs ! j)) = Inr (refined_text (outs ! j))"
      by simp_all
    note w = refine_text_window [where tok = tok and c = "content (secs ! j)" and cos_sim = cos_sim
        and enc = enc and q = "embedding req", THEN conjunct2, THEN conjunct2]
    from w [THEN conjunct1] r
    have s: "length (usable (content (secs ! j))) < 3 \<longrightarrow> refined_text (outs ! j) = content (secs ! j)"
      by (simp add: u)
    from w [THEN conjunct2] r
    have l: "3 \<le> length (usable (content (secs ! j))) \<longrightarrow>
           (\<exists>i < length (usable (content (secs ! j))).
              (\<forall>m < length (usable (content (secs ! j))).
                 score (usable (content (secs ! j)) ! m) \<le> score (usable (content (secs ! j)) ! i)) \<and>
              (\<forall>m < i. score (usable (content (secs ! j)) ! m) < score (usable (content (secs ! j)) ! i)) \<and>
              refined_text (outs ! j) =
                py_join '' '' (map (\<lambda>m. usable (content (secs ! j)) ! m)
                  [nat (max 0 (int i - 1)) ..<
                   nat (min (int (length (usable (content (secs ! j))))) (int i + 2))]))"
      by (simp add: u score_def)
    from d p s l show ?thesis by blast
  qed
  with a o(2) show ?thesis by blast
qed

theorem analyze_subsections_result_witness:
  "analyze_subsections (\<lambda>c. if c = ''long'' then [''a b c d e.'', '' f g h i j. '', ''too short.'', ''k l m n o.''] else [c])
     (\<lambda>s. if s = ''a b c d e.'' then [1] else [0]) (\<lambda>a b. if a = [1] then 0.9 else 0.1)
     [\<lparr>section_title = ''One'', content = ''long'', page_number = 1, document = ''a.pdf'', final_score = 0.5\<rparr>,
      \<lparr>section_title = ''Two'', content = ''tiny'', page_number = 7, document = ''b.pdf'', final_score = 0.25\<rparr>]
     \<lparr>combined_text = ''Task: plan'', embedding = [1]\<rparr>
   = Inr [\<lparr>out_document = ''a.pdf'', refined_text = ''a b c d e. f g h i j.'', out_page_number = 1\<rparr>,
          \<lparr>out_document = ''b.pdf'', refined_text = ''tiny'', out_page_number = 7\<rparr>]"
proof -
  let ?tok = "(\<lambda>c. if c = ''long'' then [''a b c d e.'', '' f g h i j. '', ''too short.'', ''k l m n o.''] else [c]) :: string \<Rightarrow> string list"
  let ?enc = "(\<lambda>s. if s = ''a b c d e.'' then [1] else [0]) :: string \<Rightarrow> embedding"
  let ?cos = "(\<lambda>a b. if a = [1] then 0.9 else 0.1) :: embedding \<Rightarrow> embedding \<Rightarrow> real"
  let ?s1 = "\<lparr>section_title = ''One'', content = ''long'', page_number = 1, document = ''a.pdf'', final_score = 0.5\<rparr>"
  let ?s2 = "\<lparr>section_title = ''Two'', content = ''tiny'', page_number = 7, document = ''b.pdf'', final_score = 0.25\<rparr>"
  let ?req = "\<lparr>combined_text = ''Task: plan'', embedding = [1]\<rparr>"
  let ?sents = "[''a b c d e.'', ''f g h i j.'', ''k l m n o.'']"
  let ?u = "\<lambda>c. map py_strip (filter (\<lambda>x. 4 < length (py_split (py_strip x))) (?tok c))"
  let ?sc = "\<lambda>x. ?cos (?enc x) (embedding ?req)"
  have u1: "map py_strip (filter (\<lambda>x. 4 < length (py_split (py_strip x))) (?tok ''long'')) = ?sents"
    by (simp add: py_strip_def py_split_def is_space_def)
  have u2: "map py_strip (filter (\<lambda>x. 4 < length (py_split (py_strip x))) (?tok ''tiny'')) = []"
    by (simp add: py_strip_def py_split_def is_space_def)
  from analyze_subsections_result [where tok = ?tok and enc = ?enc and cos_sim = ?cos
      and secs = "[?s1, ?s2]" and req = ?req]
  obtain outs where a: "analyze_subsections ?tok ?enc ?cos [?s1, ?s2] ?req = Inr outs"
    and l: "length outs = length [?s1, ?s2]"
    and p: "\<forall>j < length [?s1, ?s2].
        out_document (outs ! j) = document ([?s1, ?s2] ! j) \<and>
        out_page_number (outs ! j) = page_number ([?s1, ?s2] ! j) \<and>
        (length (?u (content ([?s1, ?s2] ! j))) < 3 \<longrightarrow>
           refined_text (outs ! j) = content ([?s1, ?s2] ! j)) \<and>
        (3 \<le> length (?u (content ([?s1, ?s2] ! j))) \<longrightarrow>
           (\<exists>i < length (?u (content ([?s1, ?s2] ! j))).
              (\<forall>m < length (?u (content ([?s1, ?s2] ! j))).
                 ?sc (?u (content ([?s1, ?s2] ! j)) ! m) \<le> ?sc (?u (content ([?s1, ?s2] ! j)) ! i)) \<and>
              (\<forall>m < i. ?sc (?u (content ([?s1, ?s2] ! j)) ! m) < ?sc (?u (content ([?s1, ?s2] ! j)) ! i)) \<and>
              refined_text (outs ! j) =
                py_join '' '' (map (\<lambda>m. ?u (content ([?s1, ?s2] ! j)) ! m)
                  [nat (max 0 (int i - 1)) ..<
                   nat (min (int (length (?u (content ([?s1, ?s2] ! j))))) (int i + 2))])))"
    by blast
  have c0: "content ([?s1, ?s2] ! 0) = ''long''" by simp
  have c1: "content ([?s1, ?s2] ! 1) = ''tiny''" by simp
  from p [rule_format, of 0] have
    d0: "out_document (outs ! 0) = ''a.pdf''" and g0: "out_page_number (outs ! 0) = 1"
    by simp_all
  from p [rule_format, of 1] have
    d1: "out_document (outs ! 1) = ''b.pdf''" and g1: "out_page_number (outs ! 1) = 7"
    by simp_all
  from p [rule_format, of 1] have t1: "refined_text (outs ! 1) = ''tiny''"
    unfolding c1 u2 by simp
  have h0: "0 < length [?s1, ?s2]" by simp
  have n0: "3 \<le> length (?u (content ([?s1, ?s2] ! 0)))" unfolding c0 u1 by simp
  note ex = p [rule_format, of 0, OF h0, THEN conjunct2, THEN conjunct2, THEN conjunct2,
      THEN mp, OF n0, unfolded c0 u1]
  from ex obtain i where i0: "i < length ?sents"
    and m: "\<forall>m < length ?sents. ?sc (?sents ! m) \<le> ?sc (?sents ! i)"
    and r: "refined_text (outs ! 0) =
       py_join '' '' (map (\<lambda>m. ?sents ! m) [nat (max 0 (int i - 1)) ..< nat (min (int (length ?sents)) (int i + 2))])"
    by blast
  from i0 have i: "i < 3" by simp
  from i have "i = 0 \<or> i = 1 \<or> i = 2" by auto
  moreover from m [rule_format, of 0]
  have "?sc (?sents ! 0) \<le> ?sc (?sents ! i)" by simp
  ultimately have "i = 0" by auto
  with r have t0: "refined_text (outs ! 0) = ''a b c d e. f g h i j.''" by (simp add: upt_rec)
  from l obtain o0 o1 where outs: "outs = [o0, o1]"
    by (cases outs; cases "tl outs") auto
  from d0 g0 t0 outs have "o0 = \<lparr>out_document = ''a.pdf'', refined_text = ''a b c d e. f g h i j.'', out_page_number = 1\<rparr>"
    by (cases o0) simp
  moreover from d1 g1 t1 outs have "o1 = \<lparr>out_document = ''b.pdf'', refined_text = ''tiny'', out_page_number = 7\<rparr>"
    by (cases o1) simp
  ultimately show ?thesis using a outs by simp
qed

section \<open>Properties of the structural segmenter\<close>

subsection \<open>The walk over the lines\<close>

text \<open>
  What the walk keeps true of its state, for a set \<open>T\<close> of titles: every section
  appended so far has a non-empty content and a title in \<open>T\<close>, and the current title is
  in \<open>T\<close>, or not set yet with nothing accumulated.
\<close>

definition seg_inv :: "string set \<Rightarrow> seg_state \<Rightarrow> bool" where
  "seg_inv T st =
     ((\<forall>s \<in> set (st_sections st). content s \<noteq> [] \<and> section_title s \<in> T) \<and>
      (case st_title st of None \<Rightarrow> st_content st = [] | Some t \<Rightarrow> t \<in> T))"

lemma np_median_formula:
  "xs \<noteq> [] \<Longrightarrow>
   np_median xs = (sort xs ! ((length xs - 1) div 2) + sort xs ! (length xs div 2)) / 2"
proof -
  assume "xs \<noteq> []"
  then have pos: "0 < length xs" by simp
  show ?thesis
  proof (cases "length xs mod 2 = 1")
    case True
    then have "(length xs - 1) div 2 = length xs div 2" by presburger
    with True show ?thesis by (simp add: np_median_def Let_def)
  next
    case False
    with pos have "(length xs - 1) div 2 = length xs div 2 - 1" by presburger
    with False show ?thesis by (simp add: np_median_def Let_def)
  qed
qed

lemma word_sizes_filter:
  "word_sizes ws =
   filter (\<lambda>z. z \<noteq> 0) (concat (map (\<lambda>w. case word_size w of None \<Rightarrow> [] | Some z \<Rightarrow> [z]) ws))"
  by (induction ws) (auto simp: word_sizes_def split: option.splits)

lemma process_pages_ok:
  "map extract_text_lines ps = map Inr lss \<Longrightarrow>
   process_pages thr n st ps =
     (foldl (\<lambda>st (m, l). process_line thr m st l) st
        (concat (map (\<lambda>(m, ls). map (Pair m) ls) (zip [n ..< n + length lss] lss))), None)"
proof (induction lss arbitrary: ps n st)
  case Nil
  then show ?case by simp
next
  case (Cons ls lss)
  then obtain p ps' where ps: "ps = p # ps'" by (cases ps) auto
  with Cons.prems have p: "extract_text_lines p = Inr ls"
    and r: "map extract_text_lines ps' = map Inr lss" by simp_all
  have u: "[n ..< n + length (ls # lss)] = n # [Suc n ..< Suc n + length lss]"
    by (simp add: upt_rec)
  have f: "foldl (process_line thr n) st ls =
           foldl (\<lambda>st (m, l). process_line thr m st l) st (map (Pair n) ls)"
    by (simp add: foldl_map)
  from Cons.IH [OF r, of "Suc n" "foldl (process_line thr n) st ls"] p ps
  show ?case unfolding u by (simp add: f)
qed


lemma py_strip_Nil: "py_strip [] = []"
  by (simp add: py_strip_def)

lemma close_section_inv:
  "seg_inv T st \<Longrightarrow> \<forall>s \<in> set (close_section st). content s \<noteq> [] \<and> section_title s \<in> T"
  by (cases "st_title st")
     (auto simp: seg_inv_def close_section_def title_string_def py_strip_Nil)

lemma process_line_inv:
  assumes "seg_inv T st"
    and "chars l \<noteq> [] \<and> py_strip (line_text l) \<noteq> [] \<longrightarrow> py_strip (line_text l) \<in> T"
  shows "seg_inv T (process_line thr n st l)"
proof (cases "py_strip (line_text l) = [] \<or> chars l = []")
  case True
  with assms(1) show ?thesis by (simp add: process_line_def Let_def)
next
  case False
  then obtain fc rest where fc: "chars l = fc # rest" by (cases "chars l") auto
  from False assms(2) have t: "py_strip (line_text l) \<in> T" by simp
  let ?st1 = "if st_title st = None then st\<lparr>st_title := Some (py_strip (line_text l))\<rparr> else st"
  have i1: "(\<forall>s \<in> set (st_sections ?st1). content s \<noteq> [] \<and> section_title s \<in> T) \<and>
            (\<exists>x. st_title ?st1 = Some x \<and> x \<in> T)"
    using assms(1) t by (cases "st_title st") (auto simp: seg_inv_def)
  then have "seg_inv T ?st1" by (auto simp: seg_inv_def)
  from close_section_inv [OF this]
  have c: "\<forall>s \<in> set (close_section ?st1). content s \<noteq> [] \<and> section_title s \<in> T" .
  show ?thesis
  proof (cases "is_title thr (py_strip (line_text l)) fc")
    case True
    with False fc c t show ?thesis
      by (simp add: process_line_def Let_def seg_inv_def)
  next
    case nt: False
    with False fc i1 show ?thesis
      by (auto simp: process_line_def Let_def seg_inv_def)
  qed
qed

lemma walk_inv:
  "seg_inv T st \<Longrightarrow>
   (\<forall>x \<in> set nls. chars (snd x) \<noteq> [] \<and> py_strip (line_text (snd x)) \<noteq> [] \<longrightarrow>
      py_strip (line_text (snd x)) \<in> T) \<Longrightarrow>
   seg_inv T (foldl (\<lambda>st (m, l). process_line thr m st l) st nls)"
proof (induction nls arbitrary: st)
  case Nil
  then show ?case by simp
next
  case (Cons x nls)
  obtain m l where x: "x = (m, l)" by (cases x)
  from Cons.prems x have "seg_inv T (process_line thr m st l)"
    by (intro process_line_inv) auto
  from Cons.IH [OF this] Cons.prems(2) x show ?case by simp
qed

lemma process_line_cases:
  "process_line thr n st l =
     (case chars l of
        [] \<Rightarrow> st
      | fc # rest \<Rightarrow>
          if py_strip (line_text l) = [] then st
          else if (py_in ''bold'' (lower (case fontname fc of None \<Rightarrow> [] | Some f \<Rightarrow> f)) \<or>
                   py_in ''black'' (lower (case fontname fc of None \<Rightarrow> [] | Some f \<Rightarrow> f))) \<and>
                  thr < (case char_size fc of None \<Rightarrow> 0 | Some z \<Rightarrow> z) \<and>
                  3 < length (py_split (py_strip (line_text l))) \<and>
                  length (py_split (py_strip (line_text l))) < 12 \<and>
                  \<not> endswith (py_strip (line_text l)) ''.'' \<and>
                  \<not> endswith (py_strip (line_text l)) '',''
          then \<lparr>st_sections =
                   (if py_strip (st_content st) \<noteq> [] then
                      st_sections st @
                        [\<lparr>section_title =
                            (case st_title st of None \<Rightarrow> py_strip (line_text l) | Some t \<Rightarrow> t),
                          content = py_strip (st_content st), page_number = st_page st\<rparr>]
                    else st_sections st),
                 st_title = Some (py_strip (line_text l)), st_content = [], st_page = n\<rparr>
          else st\<lparr>st_title :=
                     Some (case st_title st of None \<Rightarrow> py_strip (line_text l) | Some t \<Rightarrow> t),
                   st_content := st_content st @ py_strip (line_text l) @ '' ''\<rparr>)"
proof (cases "chars l")
  case Nil
  then show ?thesis by (simp add: process_line_def Let_def)
next
  case (Cons fc rest)
  show ?thesis
  proof (cases "py_strip (line_text l) = []")
    case True
    with Cons show ?thesis by (simp add: process_line_def Let_def)
  next
    case False
    with Cons show ?thesis
      by (cases "st_title st")
         (auto simp: process_line_def Let_def is_title_def is_bold_def font_size_of_def
            close_section_def title_string_def)
  qed
qed


text \<open>
  Claim C5, as stated, fails on two counts. A line that has text but no character is not
  a title line, yet it is not appended: it is skipped. And when no word of the first page
  carries a size there is no median, yet lines are classified, against the threshold
  \<open>1.15 * 10.0\<close>. Here the second line is dropped and the third line, bold at size 12,
  opens a section.
\<close>

theorem skipped_line_and_default_threshold:
  "extract_text_with_structure ''/tmp/doc.pdf''
     (Inr [\<lparr>extract_words = Inr [\<lparr>word_size = None\<rparr>, \<lparr>word_size = None\<rparr>],
          extract_text_lines = Inr
            [\<lparr>line_text = ''Intro words of the page'', chars = [\<lparr>fontname = Some ''Arial'', char_size = Some 12\<rparr>]\<rparr>,
             \<lparr>line_text = ''orphan words here'', chars = []\<rparr>,
             \<lparr>line_text = ''A Bold Heading Line'', chars = [\<lparr>fontname = Some ''Arial-Bold'', char_size = Some 12\<rparr>]\<rparr>,
             \<lparr>line_text = ''More body text follows here'', chars = [\<lparr>fontname = Some ''Arial'', char_size = Some 12\<rparr>]\<rparr>]\<rparr>])
   = \<lparr>filename = ''doc.pdf'',
      sections =
        [\<lparr>section_title = ''Intro words of the page'', content = ''Intro words of the page'',
          page_number = 1\<rparr>,
         \<lparr>section_title = ''A Bold Heading Line'', content = ''More body text follows here'',
          page_number = 1\<rparr>]\<rparr>"
  by (simp add: extract_text_with_structure_def try_body_def basename_def after_last_def
      get_median_font_size_def word_sizes_def np_median_def init_state_def process_line_def
      py_strip_def is_space_def is_title_def is_bold_def font_size_of_def lower_def lower_char_def
      upper_letters_def lower_letters_def py_split_def endswith_def close_section_def
      title_string_def)

text \<open>
  Claim C5, amended. A line whose stripped text is empty, or that has no character, is
  skipped. Any other line is a title line if and only if the first character's font
  name, in lower case, contains \<open>bold\<close> or \<open>black\<close>, its size strictly exceeds the
  threshold, the line has more than 3 and fewer than 12 words, and the line ends neither
  in \<open>.\<close> nor in \<open>,\<close>. A title line appends the current section if its stripped content
  is not empty and opens a new section with the line as title, on the current page; any
  other line is appended to the current content, followed by a space; the first line
  seeds the title. The threshold is 1.15 times the median of the non-zero sizes carried
  by the first page's words, and 1.15 times 10.0 when no word carries one. When every
  extraction succeeds, the sections of the document are those of this walk over every
  line of every page in order, closed at the end; each has a non-empty content and the
  stripped text of a line of the document as title.
\<close>

theorem title_line_segmentation:
  fixes ws :: "word list" and lss :: "line list list"
  defines "sizes \<equiv> filter (\<lambda>z. z \<noteq> 0)
                     (concat (map (\<lambda>w. case word_size w of None \<Rightarrow> [] | Some z \<Rightarrow> [z]) ws))"
  defines "baseline \<equiv>
             (if sizes = [] then 10
              else (sort sizes ! ((length sizes - 1) div 2) + sort sizes ! (length sizes div 2)) / 2)"
  defines "walk \<equiv> foldl (\<lambda>st (m, l). process_line (1.15 * baseline) m st l) init_state
                     (concat (map (\<lambda>(m, ls). map (Pair m) ls) (zip [1 ..< 1 + length lss] lss)))"
  shows "process_line thr n st l =
     (case chars l of
        [] \<Rightarrow> st
      | fc # rest \<Rightarrow>
          if py_strip (line_text l) = [] then st
          else if (py_in ''bold'' (lower (case fontname fc of None \<Rightarrow> [] | Some f \<Rightarrow> f)) \<or>
                   py_in ''black'' (lower (case fontname fc of None \<Rightarrow> [] | Some f \<Rightarrow> f))) \<and>
                  thr < (case char_size fc of None \<Rightarrow> 0 | Some z \<Rightarrow> z) \<and>
                  3 < length (py_split (py_strip (line_text l))) \<and>
                  length (py_split (py_strip (line_text l))) < 12 \<and>
                  \<not> endswith (py_strip (line_text l)) ''.'' \<and>
                  \<not> endswith (py_strip (line_text l)) '',''
          then \<lparr>st_sections =
                   (if py_strip (st_content st) \<noteq> [] then
                      st_sections st @
                        [\<lparr>section_title =
                            (case st_title st of None \<Rightarrow> py_strip (line_text l) | Some t \<Rightarrow> t),
                          content = py_strip (st_content st), page_number = st_page st\<rparr>]
                    else st_sections st),
                 st_title = Some (py_strip (line_text l)), st_content = [], st_page = n\<rparr>
          else st\<lparr>st_title :=
                     Some (case st_title st of None \<Rightarrow> py_strip (line_text l) | Some t \<Rightarrow> t),
                   st_content := st_content st @ py_strip (line_text l) @ '' ''\<rparr>) \<and>
     (extract_words p0 = Inr ws \<and> map extract_text_lines (p0 # ps) = map Inr lss \<longrightarrow>
        extract_text_with_structure path (Inr (p0 # ps)) =
          \<lparr>filename = basename path, sections = close_section walk\<rparr> \<and>
        (\<forall>s \<in> set (close_section walk).
           content s \<noteq> [] \<and>
           (\<exists>ls \<in> set lss. \<exists>x \<in> set ls.
              chars x \<noteq> [] \<and> py_strip (line_text x) \<noteq> [] \<and>
              section_title s = py_strip (line_text x))))"
proof (intro conjI impI)
  show "process_line thr n st l =
     (case chars l of
        [] \<Rightarrow> st
      | fc # rest \<Rightarrow>
          if py_strip (line_text l) = [] then st
          else if (py_in ''bold'' (lower (case fontname fc of None \<Rightarrow> [] | Some f \<Rightarrow> f)) \<or>
                   py_in ''black'' (lower (case fontname fc of None \<Rightarrow> [] | Some f \<Rightarrow> f))) \<and>
                  thr < (case char_size fc of None \<Rightarrow> 0 | Some z \<Rightarrow> z) \<and>
                  3 < length (py_split (py_strip (line_text l))) \<and>
                  length (py_split (py_strip (line_text l))) < 12 \<and>
                  \<not> endswith (py_strip (line_text l)) ''.'' \<and>
                  \<not> endswith (py_strip (line_text l)) '',''
          then \<lparr>st_sections =
                   (if py_strip (st_content st) \<noteq> [] then
                      st_sections st @
                        [\<lparr>section_title =
                            (case st_title st of None \<Rightarrow> py_strip (line_text l) | Some t \<Rightarrow> t),
                          content = py_strip (st_content st), page_number = st_page st\<rparr>]
                    else st_sections st),
                 st_title = Some (py_strip (line_text l)), st_content = [], st_page = n\<rparr>
          else st\<lparr>st_title :=
                     Some (case st_title st of None \<Rightarrow> py_strip (line_text l) | Some t \<Rightarrow> t),
                   st_content := st_content st @ py_strip (line_text l) @ '' ''\<rparr>)"
    by (rule process_line_cases)
next
  assume h: "extract_words p0 = Inr ws \<and> map extract_text_lines (p0 # ps) = map Inr lss"
  have s: "sizes = word_sizes ws" by (simp add: sizes_def word_sizes_filter)
  have b: "get_median_font_size p0 = Inr baseline"
    using h by (simp add: get_median_font_size_def Let_def baseline_def s np_median_formula)
  from h have "process_pages (baseline * 1.15) 1 init_state (p0 # ps) =
     (foldl (\<lambda>st (m, l). process_line (baseline * 1.15) m st l) init_state
        (concat (map (\<lambda>(m, ls). map (Pair m) ls) (zip [1 ..< 1 + length lss] lss))), None)"
    by (intro process_pages_ok) simp
  then have "process_pages (baseline * 1.15) 1 init_state (p0 # ps) = (walk, None)"
    by (simp add: walk_def mult.commute)
  with b have "try_body (Inr (p0 # ps)) = (close_section walk, None)"
    by (simp add: try_body_def Let_def)
  then show "extract_text_with_structure path (Inr (p0 # ps)) =
          \<lparr>filename = basename path, sections = close_section walk\<rparr>"
    by (simp add: extract_text_with_structure_def Let_def)
next
  let ?T = "{t. \<exists>ls \<in> set lss. \<exists>x \<in> set ls.
              chars x \<noteq> [] \<and> py_strip (line_text x) \<noteq> [] \<and> t = py_strip (line_text x)}"
  let ?nls = "concat (map (\<lambda>(m, ls). map (Pair m) ls) (zip [1 ..< 1 + length lss] lss))"
  have i0: "seg_inv ?T init_state" by (simp add: seg_inv_def init_state_def)
  have m: "\<forall>x \<in> set ?nls. chars (snd x) \<noteq> [] \<and> py_strip (line_text (snd x)) \<noteq> [] \<longrightarrow>
      py_strip (line_text (snd x)) \<in> ?T"
  proof (intro ballI impI)
    fix x assume x: "x \<in> set ?nls"
      and u: "chars (snd x) \<noteq> [] \<and> py_strip (line_text (snd x)) \<noteq> []"
    from x obtain k ls where "(k, ls) \<in> set (zip [1 ..< 1 + length lss] lss)" "snd x \<in> set ls"
      by auto
    then have "ls \<in> set lss" "snd x \<in> set ls" by (auto dest: set_zip_rightD)
    with u show "py_strip (line_text (snd x)) \<in> ?T" by blast
  qed
  from walk_inv [OF i0 m, of "1.15 * baseline"] have "seg_inv ?T walk" by (simp add: walk_def)
  from close_section_inv [OF this]
  show "\<forall>s \<in> set (close_section walk).
           content s \<noteq> [] \<and>
           (\<exists>ls \<in> set lss. \<exists>x \<in> set ls.
              chars x \<noteq> [] \<and> py_strip (line_text x) \<noteq> [] \<and>
              section_title s = py_strip (line_text x))"
    by blast
qed

theorem title_line_segmentation_witness:
  "extract_text_with_structure ''/tmp/report.pdf''
     (Inr [\<lparr>extract_words = Inr [\<lparr>word_size = Some 10\<rparr>, \<lparr>word_size = Some 30\<rparr>, \<lparr>word_size = None\<rparr>, \<lparr>word_size = Some 12\<rparr>],
          extract_text_lines = Inr
            [\<lparr>line_text = ''Opening words of the text'', chars = [\<lparr>fontname = Some ''Arial'', char_size = Some 12\<rparr>]\<rparr>,
             \<lparr>line_text = ''   '', chars = [\<lparr>fontname = Some ''Arial'', char_size = Some 12\<rparr>]\<rparr>,
             \<lparr>line_text = ''Not Quite A Heading'', chars = [\<lparr>fontname = Some ''Arial-Bold'', char_size = Some 13\<rparr>]\<rparr>]\<rparr>,
           \<lparr>extract_words = Inr [],
          extract_text_lines = Inr
            [\<lparr>line_text = ''A Real Heading Line'', chars = [\<lparr>fontname = Some ''Arial-Black'', char_size = Some 14\<rparr>]\<rparr>,
             \<lparr>line_text = ''Body of the second part.'', chars = [\<lparr>fontname = Some ''Arial'', char_size = Some 12\<rparr>]\<rparr>]\<rparr>])
   = \<lparr>filename = ''report.pdf'',
      sections =
        [\<lparr>section_title = ''Opening words of the text'',
          content = ''Opening words of the text Not Quite A Heading'', page_number = 1\<rparr>,
         \<lparr>section_title = ''A Real Heading Line'', content = ''Body of the second part.'',
          page_number = 2\<rparr>]\<rparr>"
proof -
  let ?ws = "[\<lparr>word_size = Some 10\<rparr>, \<lparr>word_size = Some 30\<rparr>, \<lparr>word_size = None\<rparr>, \<lparr>word_size = Some 12\<rparr>]"
  let ?ls0 = "[\<lparr>line_text = ''Opening words of the text'', chars = [\<lparr>fontname = Some ''Arial'', char_size = Some 12\<rparr>]\<rparr>,
             \<lparr>line_text = ''   '', chars = [\<lparr>fontname = Some ''Arial'', char_size = Some 12\<rparr>]\<rparr>,
             \<lparr>line_text = ''Not Quite A Heading'', chars = [\<lparr>fontname = Some ''Arial-Bold'', char_size = Some 13\<rparr>]\<rparr>]"
  let ?ls1 = "[\<lparr>line_text = ''A Real Heading Line'', chars = [\<lparr>fontname = Some ''Arial-Black'', char_size = Some 14\<rparr>]\<rparr>,
             \<lparr>line_text = ''Body of the second part.'', chars = [\<lparr>fontname = Some ''Arial'', char_size = Some 12\<rparr>]\<rparr>]"
  let ?p0 = "\<lparr>extract_words = Inr ?ws, extract_text_lines = Inr ?ls0\<rparr>"
  let ?p1 = "\<lparr>extract_words = Inr [], extract_text_lines = Inr ?ls1\<rparr>"
  have h: "extract_words ?p0 = Inr ?ws \<and>
           map extract_text_lines (?p0 # [?p1]) = map Inr [?ls0, ?ls1]"
    by simp
  note w = title_line_segmentation [where ?p0.0 = ?p0 and ps = "[?p1]" and ws = ?ws
      and lss = "[?ls0, ?ls1]" and path = "''/tmp/report.pdf''",
      THEN conjunct2, THEN mp, OF h, THEN conjunct1]
  have srt: "sort [10, 30, 12 :: real] = [10, 12, 30]" by simp
  show ?thesis
    unfolding w
    by (simp add: srt basename_def after_last_def init_state_def process_line_def
      py_strip_def is_space_def is_title_def is_bold_def font_size_of_def lower_def lower_char_def
      upper_letters_def lower_letters_def py_split_def endswith_def close_section_def
      title_string_def upt_rec)
qed

subsection \<open>A failure during the walk\<close>

text \<open>
  Claim C9, as stated, fails: when a page fails after a section has been completed, the
  result has no section that carries the error message. Here the second page raises
  after the first page closed one section.
\<close>

theorem failure_after_first_section:
  "extract_text_with_structure ''/tmp/doc.pdf''
     (Inr [\<lparr>extract_words = Inr [\<lparr>word_size = Some 10\<rparr>],
            extract_text_lines = Inr
              [\<lparr>line_text = ''Some body text here'',
                chars = [\<lparr>fontname = Some ''Arial'', char_size = Some 10\<rparr>]\<rparr>,
               \<lparr>line_text = ''The Second Part Begins'',
                chars = [\<lparr>fontname = Some ''Arial-Bold'', char_size = Some 14\<rparr>]\<rparr>]\<rparr>,
           \<lparr>extract_words = Inr [], extract_text_lines = Inl ''bad page''\<rparr>])
   = \<lparr>filename = ''doc.pdf'',
      sections = [\<lparr>section_title = ''Some body text here'', content = ''Some body text here'',
                   page_number = 1\<rparr>]\<rparr>"
  by (simp add: extract_text_with_structure_def try_body_def basename_def after_last_def
      get_median_font_size_def word_sizes_def np_median_def init_state_def process_line_def
      py_strip_def is_space_def is_title_def is_bold_def font_size_of_def lower_def lower_char_def upper_letters_def lower_letters_def
      py_split_def endswith_def close_section_def title_string_def)

lemma process_pages_fails:
  "p \<in> set ps \<Longrightarrow> extract_text_lines p = Inl e \<Longrightarrow>
   \<exists>st' e'. process_pages thr n st ps = (st', Some e')"
proof (induction ps arbitrary: n st)
  case Nil
  then show ?case by simp
next
  case (Cons q ps)
  show ?case
  proof (cases "extract_text_lines q")
    case (Inl a)
    then show ?thesis by simp
  next
    case (Inr ls)
    with Cons.prems have "p \<in> set ps" by auto
    from Cons.IH [OF this Cons.prems(2)] Inr show ?thesis by simp
  qed
qed

text \<open>
  Claim C9, amended. The segmenter never fails the document. No page gives no section.
  A failure to open the file, or to read the words of the first page, gives the single
  section \<open>Error processing <file>\<close> with the message as content. A failure on a
  page ends the block with the sections completed before it, and the result is these
  sections, or the single error section when there is none.
\<close>

theorem segmentation_failure_degrades:
  "sections (extract_text_with_structure path (Inr [])) = [] \<and>
   sections (extract_text_with_structure path (Inl e)) = [error_section (basename path) e] \<and>
   (extract_words p0 = Inl e \<longrightarrow>
      sections (extract_text_with_structure path (Inr (p0 # ps))) = [error_section (basename path) e]) \<and>
   (try_body pdf = (secs, Some e) \<longrightarrow>
      sections (extract_text_with_structure path pdf) =
        (if secs = [] then [error_section (basename path) e] else secs)) \<and>
   (get_median_font_size p0 = Inr m \<and> p \<in> set (p0 # ps) \<and> extract_text_lines p = Inl e \<longrightarrow>
      (\<exists>st e'. process_pages (m * 1.15) 1 init_state (p0 # ps) = (st, Some e') \<and>
         try_body (Inr (p0 # ps)) = (st_sections st, Some e') \<and>
         sections (extract_text_with_structure path (Inr (p0 # ps))) =
           (if st_sections st = [] then [error_section (basename path) e'] else st_sections st)))"
proof (intro conjI impI)
  show "sections (extract_text_with_structure path (Inr [])) = []"
    by (simp add: extract_text_with_structure_def try_body_def Let_def)
  show "sections (extract_text_with_structure path (Inl e)) = [error_section (basename path) e]"
    by (simp add: extract_text_with_structure_def try_body_def Let_def)
  show "sections (extract_text_with_structure path (Inr (p0 # ps))) = [error_section (basename path) e]"
    if "extract_words p0 = Inl e"
    using that by (simp add: extract_text_with_structure_def try_body_def get_median_font_size_def Let_def)
  show "sections (extract_text_with_structure path pdf) =
        (if secs = [] then [error_section (basename path) e] else secs)"
    if "try_body pdf = (secs, Some e)"
    using that by (simp add: extract_text_with_structure_def Let_def)
  show "\<exists>st e'. process_pages (m * 1.15) 1 init_state (p0 # ps) = (st, Some e') \<and>
         try_body (Inr (p0 # ps)) = (st_sections st, Some e') \<and>
         sections (extract_text_with_structure path (Inr (p0 # ps))) =
           (if st_sections st = [] then [error_section (basename path) e'] else st_sections st)"
    if h: "get_median_font_size p0 = Inr m \<and> p \<in> set (p0 # ps) \<and> extract_text_lines p = Inl e"
  proof -
    from h process_pages_fails [of p "p0 # ps" e "m * 1.15" 1 init_state]
    obtain st e' where pp: "process_pages (m * 1.15) 1 init_state (p0 # ps) = (st, Some e')"
      by blast
    with h have tb: "try_body (Inr (p0 # ps)) = (st_sections st, Some e')"
      by (simp add: try_body_def)
    then have "sections (extract_text_with_structure path (Inr (p0 # ps))) =
           (if st_sections st = [] then [error_section (basename path) e'] else st_sections st)"
      by (simp add: extract_text_with_structure_def Let_def)
    with pp tb show ?thesis by blast
  qed
qed

theorem segmentation_failure_degrades_witness:
  "sections (extract_text_with_structure ''/tmp/doc.pdf''
     (Inr [\<lparr>extract_words = Inr [\<lparr>word_size = Some 10\<rparr>], extract_text_lines = Inl ''bad page''\<rparr>]))
   = [\<lparr>section_title = ''Error processing doc.pdf'', content = ''bad page'', page_number = 1\<rparr>]"
proof -
  let ?p = "\<lparr>extract_words = Inr [\<lparr>word_size = Some 10\<rparr>], extract_text_lines = Inl ''bad page''\<rparr>"
  have h: "get_median_font_size ?p = Inr 10 \<and> ?p \<in> set (?p # []) \<and>
           extract_text_lines ?p = Inl ''bad page''"
    by (simp add: get_median_font_size_def word_sizes_def np_median_def)
  note w = segmentation_failure_degrades [where p0 = ?p and ps = "[]" and m = 10 and p = ?p
      and e = "''bad page''" and path = "''/tmp/doc.pdf''",
      THEN conjunct2, THEN conjunct2, THEN conjunct2, THEN conjunct2]
  from w [THEN mp, OF h] obtain st e' where
    pp: "process_pages (10 * 1.15) 1 init_state [?p] = (st, Some e')"
    and s: "sections (extract_text_with_structure ''/tmp/doc.pdf'' (Inr [?p])) =
           (if st_sections st = [] then [error_section (basename ''/tmp/doc.pdf'') e'] else st_sections st)"
    by blast
  have "process_pages (10 * 1.15) 1 init_state [?p] = (init_state, Some ''bad page'')" by simp
  with pp have "st = init_state" "e' = ''bad page''" by simp_all
  with s show ?thesis
    by (simp add: init_state_def error_section_def basename_def after_last_def)
qed

section \<open>Properties of the pipeline orchestrator\<close>

subsection \<open>No section at all\<close>

text \<open>
  Claim C3, as stated, fails at the pipeline: a single document whose only section has
  fewer than 10 words gives the error \<open>No sections found in the provided PDFs\<close>, not a
  result with an empty list of sections.
\<close>

theorem empty_corpus_is_error:
  "fst (process_pdfs_with_ml True (\<lambda>t. Inr [1]) (\<lambda>t. Inr [1]) (\<lambda>a b. Inr 0.5) (\<lambda>d. ''/tmp/t.pdf'')
     (Inr [\<lparr>pdf_id = 1, original_filename = ''short.pdf'',
            file_data = Some (Inr [\<lparr>extract_words = Inr [\<lparr>word_size = Some 10\<rparr>],
                                    extract_text_lines = Inr
                                      [\<lparr>line_text = ''Only four words here'',
                                        chars = [\<lparr>fontname = Some ''Arial'', char_size = Some 10\<rparr>]\<rparr>]\<rparr>]),
            stored_sections = []\<rparr>])
     ''summarise'' 5)
   = Error ''No sections found in the provided PDFs''"
  by (simp add: process_pdfs_with_ml_def process_pdf_def cache_usable_def
      extract_sections_from_pdf_def generate_embeddings_for_sections_def
      extract_text_with_structure_def try_body_def basename_def after_last_def
      get_median_font_size_def word_sizes_def np_median_def init_state_def process_line_def
      py_strip_def is_space_def is_title_def is_bold_def font_size_of_def lower_def lower_char_def upper_letters_def lower_letters_def
      py_split_def endswith_def close_section_def title_string_def section_text_def)

lemma all_sections_of_empty:
  "(\<forall>d \<in> set docs. \<forall>s \<in> set (sections d). \<not> survives s) \<Longrightarrow>
   all_sections_of enc cos_sim themes q docs = []"
  by (induction docs) (auto simp: all_sections_of_def filter_empty_conv)

lemma extract_sections_empty:
  "(\<forall>s \<in> set (sections (extract_text_with_structure path f)). length (py_split (section_text s)) < 10) \<Longrightarrow>
   extract_sections_from_pdf path f = []"
  by (auto simp: extract_sections_from_pdf_def Let_def filter_empty_conv dest!: set_zip_rightD)

lemma process_pdf_no_sections:
  assumes "\<not> cache_usable d"
    and "\<forall>f. file_data d = Some f \<longrightarrow>
           (\<forall>s \<in> set (sections (extract_text_with_structure (temp_path d) f)).
              length (py_split (section_text s)) < 10)"
  shows "fst (snd (process_pdf encode_text temp_path d)) = []"
proof (cases "file_data d")
  case None
  with assms(1) show ?thesis by (simp add: process_pdf_def)
next
  case (Some f)
  with assms(2) have "extract_sections_from_pdf (temp_path d) f = []"
    by (intro extract_sections_empty) simp
  with Some assms(1) show ?thesis
    by (simp add: process_pdf_def generate_embeddings_for_sections_def)
qed

lemma process_all_no_sections:
  "(\<forall>d \<in> set pdfs. fst (snd (process_pdf encode_text temp_path d)) = []) \<Longrightarrow>
   fst (snd (process_all encode_text temp_path pdfs)) = []"
  by (induction pdfs) (auto split: prod.splits)

text \<open>
  Claim C3, amended. When no section passes the title and minimum-word filters, the
  ranker's \<open>get_sections_with_content\<close> returns the empty list. In the pipeline, when no
  document has a usable cache and every freshly segmented section has fewer than 10
  words, no section is collected; and whenever no section is collected,
  \<open>process_pdfs_with_ml\<close> returns the error \<open>No sections found in the provided PDFs\<close>.
\<close>

theorem empty_corpus_outcome:
  "((\<forall>d \<in> set docs. \<forall>s \<in> set (sections d). \<not> survives s) \<longrightarrow>
      get_sections_with_content kw enc cos_sim docs req k = []) \<and>
   ((\<forall>d \<in> set pdfs. \<not> cache_usable d \<and>
        (\<forall>f. file_data d = Some f \<longrightarrow>
           (\<forall>s \<in> set (sections (extract_text_with_structure (temp_path d) f)).
              length (py_split (section_text s)) < 10))) \<longrightarrow>
      fst (snd (process_all encode_text temp_path pdfs)) = []) \<and>
   (fst (snd (process_all encode_text temp_path pdfs)) = [] \<longrightarrow>
      fst (process_pdfs_with_ml True encode_text model_encode cos_sim' temp_path (Inr pdfs) job k)
        = Error ''No sections found in the provided PDFs'')"
proof (intro conjI impI)
  show "get_sections_with_content kw enc cos_sim docs req k = []"
    if "\<forall>d \<in> set docs. \<forall>s \<in> set (sections d). \<not> survives s"
    using all_sections_of_empty [OF that] by (simp add: get_sections_with_content_def Let_def)
  show "fst (snd (process_all encode_text temp_path pdfs)) = []"
    if h: "\<forall>d \<in> set pdfs. \<not> cache_usable d \<and>
        (\<forall>f. file_data d = Some f \<longrightarrow>
           (\<forall>s \<in> set (sections (extract_text_with_structure (temp_path d) f)).
              length (py_split (section_text s)) < 10))"
  proof (rule process_all_no_sections, rule ballI)
    fix d assume "d \<in> set pdfs"
    with h show "fst (snd (process_pdf encode_text temp_path d)) = []"
      by (intro process_pdf_no_sections) auto
  qed
  show "fst (process_pdfs_with_ml True encode_text model_encode cos_sim' temp_path (Inr pdfs) job k)
        = Error ''No sections found in the provided PDFs''"
    if e: "fst (snd (process_all encode_text temp_path pdfs)) = []"
  proof -
    obtain x a b where pa: "process_all encode_text temp_path pdfs = (x, a, b)"
      by (cases "process_all encode_text temp_path pdfs") auto
    with e have "a = []" by simp
    with pa show ?thesis by (simp add: process_pdfs_with_ml_def)
  qed
qed

theorem empty_corpus_outcome_witness:
  "get_sections_with_content (\<lambda>t. [(''plan'', 0.5)]) (\<lambda>t. [1]) (\<lambda>a b. 0.5)
     [\<lparr>filename = ''short.pdf'', sections =
        [\<lparr>section_title = ''Only four words here'', content = ''Only four words here'',
          page_number = 1\<rparr>]\<rparr>]
     \<lparr>combined_text = ''Task: plan'', embedding = [1]\<rparr> 5 = [] \<and>
   fst (process_pdfs_with_ml True (\<lambda>t. Inr [1]) (\<lambda>t. Inr [1]) (\<lambda>a b. Inr 0.5) (\<lambda>d. ''/tmp/t.pdf'')
     (Inr [\<lparr>pdf_id = 1, original_filename = ''short.pdf'', file_data = None,
            stored_sections = []\<rparr>])
     ''summarise'' 5)
   = Error ''No sections found in the provided PDFs''"
proof -
  let ?docs = "[\<lparr>filename = ''short.pdf'', sections =
        [\<lparr>section_title = ''Only four words here'', content = ''Only four words here'',
          page_number = 1\<rparr>]\<rparr>]"
  let ?pdfs = "[\<lparr>pdf_id = 1, original_filename = ''short.pdf'', file_data = None,
            stored_sections = []\<rparr>]"
  have h1: "\<forall>d \<in> set ?docs. \<forall>s \<in> set (sections d). \<not> survives s"
    by (simp add: survives_def section_text_def py_split_def is_space_def)
  have h2: "\<forall>d \<in> set ?pdfs. \<not> cache_usable d \<and>
        (\<forall>f. file_data d = Some f \<longrightarrow>
           (\<forall>s \<in> set (sections (extract_text_with_structure ((\<lambda>d. ''/tmp/t.pdf'') d) f)).
              length (py_split (section_text s)) < 10))"
    by (simp add: cache_usable_def)
  note w = empty_corpus_outcome [where docs = ?docs and pdfs = ?pdfs
      and temp_path = "\<lambda>d. ''/tmp/t.pdf''" and encode_text = "\<lambda>t. Inr [1]"]
  from w [THEN conjunct1, THEN mp, OF h1]
  have a: "get_sections_with_content (\<lambda>t. [(''plan'', 0.5)]) (\<lambda>t. [1]) (\<lambda>a b. 0.5) ?docs
     \<lparr>combined_text = ''Task: plan'', embedding = [1]\<rparr> 5 = []" .
  from w [THEN conjunct2, THEN conjunct1, THEN mp, OF h2]
  have "fst (snd (process_all (\<lambda>t. Inr [1]) (\<lambda>d. ''/tmp/t.pdf'') ?pdfs)) = []" .
  from w [THEN conjunct2, THEN conjunct2, THEN mp, OF this]
  have "fst (process_pdfs_with_ml True (\<lambda>t. Inr [1]) (\<lambda>t. Inr [1]) (\<lambda>a b. Inr 0.5)
          (\<lambda>d. ''/tmp/t.pdf'') (Inr ?pdfs) ''summarise'' 5)
        = Error ''No sections found in the provided PDFs''" .
  with a show ?thesis by (rule conjI)
qed

subsection \<open>A section whose embedding fails\<close>

lemma score_all_total:
  "(\<forall>s \<in> set secs. p_embedding s \<noteq> [] \<longrightarrow> (\<exists>r. cos_sim (p_embedding s) q = Inr r)) \<Longrightarrow>
   \<exists>scored. score_all cos_sim q secs = Inr scored \<and> map fst scored = secs \<and>
     (\<forall>x \<in> set scored. p_embedding (fst x) = [] \<longrightarrow> snd x = 0)"
proof (induction secs)
  case Nil
  then show ?case by simp
next
  case (Cons s secs)
  then obtain scored where sc: "score_all cos_sim q secs = Inr scored" "map fst scored = secs"
    "\<forall>x \<in> set scored. p_embedding (fst x) = [] \<longrightarrow> snd x = 0"
    by auto
  show ?case
  proof (cases "p_embedding s = []")
    case True
    with sc show ?thesis by simp
  next
    case False
    with Cons.prems obtain r where "cos_sim (p_embedding s) q = Inr r" by auto
    with False sc show ?thesis by simp
  qed
qed

lemma process_pdf_failed_embedding:
  assumes "\<not> cache_usable d" "file_data d = Some f"
    and "s \<in> set (extract_sections_from_pdf (temp_path d) f)"
    and "encode_text (ex_text s) = Inl err"
  shows "of_extracted d (s, []) \<in> set (fst (snd (process_pdf encode_text temp_path d)))"
proof -
  from assms(4) have "embed_section encode_text s = (s, [])" by (simp add: embed_section_def)
  with assms(3) have "(s, []) \<in> set (generate_embeddings_for_sections encode_text
                         (extract_sections_from_pdf (temp_path d) f))"
    by (force simp: generate_embeddings_for_sections_def)
  with assms(1,2) show ?thesis by (simp add: process_pdf_def Let_def)
qed

text \<open>
  Claim C10. A section whose \<open>encode_text\<close> call raises gets the empty list as embedding
  and stays in the list of sections. With the model ready, the documents found, at least
  one section collected, the query encoded and the similarity defined on the non-empty
  embeddings, the run returns insights whatever \<open>encode_text\<close> did: every section is
  scored, a section with an empty embedding has relevance 0.0, and the sort keeps every
  scored section.
\<close>

theorem embedding_failure_not_fatal:
  assumes db: "db_pdfs = Inr pdfs"
    and pa: "process_all encode_text temp_path pdfs = (pdfs', all_sections, evs)"
    and ne: "all_sections \<noteq> []"
    and q: "model_encode (''Task: '' @ job) = Inr query_embedding"
    and cs: "\<forall>s \<in> set all_sections. p_embedding s \<noteq> [] \<longrightarrow>
               (\<exists>r. cos_sim (p_embedding s) query_embedding = Inr r)"
  shows "(\<forall>s. (\<exists>err. encode_text (ex_text s) = Inl err) \<longrightarrow> embed_section encode_text s = (s, [])) \<and>
         map fst (generate_embeddings_for_sections encode_text secs) = secs \<and>
         (\<forall>d f s. \<not> cache_usable d \<and> file_data d = Some f \<and>
             s \<in> set (extract_sections_from_pdf (temp_path d) f) \<and>
             (\<exists>err. encode_text (ex_text s) = Inl err) \<longrightarrow>
             of_extracted d (s, []) \<in> set (fst (snd (process_pdf encode_text temp_path d)))) \<and>
         (\<exists>scored.
            score_all cos_sim query_embedding all_sections = Inr scored \<and>
            map fst scored = all_sections \<and>
            (\<forall>x \<in> set scored. p_embedding (fst x) = [] \<longrightarrow> snd x = 0.0) \<and>
            mset (sort_key (\<lambda>x. - snd x) scored) = mset scored \<and>
            process_pdfs_with_ml True encode_text model_encode cos_sim temp_path db_pdfs job k =
              (Insights
                 (map insight_card (zip [0 ..< length (top_sections k scored)] (top_sections k scored)))
                 \<lparr>job_to_be_done = job, input_documents = map original_filename pdfs,
                  total_sections_processed = length all_sections,
                  top_insights_returned = length (top_sections k scored)\<rparr>,
               pdfs', evs))"
proof (intro conjI)
  show "\<forall>s. (\<exists>err. encode_text (ex_text s) = Inl err) \<longrightarrow> embed_section encode_text s = (s, [])"
    by (auto simp: embed_section_def)
  show "map fst (generate_embeddings_for_sections encode_text secs) = secs"
    by (induction secs) (auto simp: generate_embeddings_for_sections_def embed_section_def split: sum.splits)
  show "\<forall>d f s. \<not> cache_usable d \<and> file_data d = Some f \<and>
             s \<in> set (extract_sections_from_pdf (temp_path d) f) \<and>
             (\<exists>err. encode_text (ex_text s) = Inl err) \<longrightarrow>
             of_extracted d (s, []) \<in> set (fst (snd (process_pdf encode_text temp_path d)))"
    using process_pdf_failed_embedding by blast
  from score_all_total [of all_sections cos_sim query_embedding, OF cs] obtain scored where
    sc: "score_all cos_sim query_embedding all_sections = Inr scored" "map fst scored = all_sections"
      "\<forall>x \<in> set scored. p_embedding (fst x) = [] \<longrightarrow> snd x = 0"
    by blast
  have "process_pdfs_with_ml True encode_text model_encode cos_sim temp_path db_pdfs job k =
              (Insights
                 (map insight_card (zip [0 ..< length (top_sections k scored)] (top_sections k scored)))
                 \<lparr>job_to_be_done = job, input_documents = map original_filename pdfs,
                  total_sections_processed = length all_sections,
                  top_insights_returned = length (top_sections k scored)\<rparr>,
               pdfs', evs)"
    using db pa ne q sc(1) by (simp add: process_pdfs_with_ml_def Let_def)
  with sc show "\<exists>scored.
            score_all cos_sim query_embedding all_sections = Inr scored \<and>
            map fst scored = all_sections \<and>
            (\<forall>x \<in> set scored. p_embedding (fst x) = [] \<longrightarrow> snd x = 0.0) \<and>
            mset (sort_key (\<lambda>x. - snd x) scored) = mset scored \<and>
            process_pdfs_with_ml True encode_text model_encode cos_sim temp_path db_pdfs job k =
              (Insights
                 (map insight_card (zip [0 ..< length (top_sections k scored)] (top_sections k scored)))
                 \<lparr>job_to_be_done = job, input_documents = map original_filename pdfs,
                  total_sections_processed = length all_sections,
                  top_insights_returned = length (top_sections k scored)\<rparr>,
               pdfs', evs)"
    by auto
qed

theorem embedding_failure_not_fatal_witness:
  "process_pdfs_with_ml True (\<lambda>t. Inl ''boom'') (\<lambda>t. Inr [1]) (\<lambda>a b. Inr 0.5) (\<lambda>d. ''/tmp/t.pdf'')
     (Inr [\<lparr>pdf_id = 1, original_filename = ''a.pdf'',
            file_data = Some (Inr [\<lparr>extract_words = Inr [\<lparr>word_size = Some 10\<rparr>],
                                    extract_text_lines = Inr
                                      [\<lparr>line_text = ''alpha beta gamma delta epsilon zeta'',
                                        chars = [\<lparr>fontname = Some ''Arial'', char_size = Some 10\<rparr>]\<rparr>]\<rparr>]),
            stored_sections = []\<rparr>])
     ''summarise'' 5
   = (Insights
        [\<lparr>card_id = (1, 0), pdfName = ''a.pdf'',
          sectionTitle = ''alpha beta gamma delta epsilon zeta'',
          card_content = ''alpha beta gamma delta epsilon zeta'',
          pageNumber = 1, importanceRank = 1, relevanceScore = 0\<rparr>]
        \<lparr>job_to_be_done = ''summarise'', input_documents = [''a.pdf''],
         total_sections_processed = 1, top_insights_returned = 1\<rparr>,
      [\<lparr>pdf_id = 1, original_filename = ''a.pdf'',
        file_data = Some (Inr [\<lparr>extract_words = Inr [\<lparr>word_size = Some 10\<rparr>],
                                extract_text_lines = Inr
                                  [\<lparr>line_text = ''alpha beta gamma delta epsilon zeta'',
                                    chars = [\<lparr>fontname = Some ''Arial'', char_size = Some 10\<rparr>]\<rparr>]\<rparr>]),
        stored_sections =
          [\<lparr>ss_title = ''alpha beta gamma delta epsilon zeta'',
            ss_content = ''alpha beta gamma delta epsilon zeta'',
            ss_page = 1, ss_index = 0, ss_embedding = []\<rparr>]\<rparr>],
      [Segmented 1,
       Encoded ''alpha beta gamma delta epsilon zeta. alpha beta gamma delta epsilon zeta''])"
proof -
  let ?f = "Inr [\<lparr>extract_words = Inr [\<lparr>word_size = Some 10\<rparr>],
                                    extract_text_lines = Inr
                                      [\<lparr>line_text = ''alpha beta gamma delta epsilon zeta'',
                                        chars = [\<lparr>fontname = Some ''Arial'', char_size = Some 10\<rparr>]\<rparr>]\<rparr>]"
  let ?d = "\<lparr>pdf_id = 1, original_filename = ''a.pdf'', file_data = Some ?f, stored_sections = []\<rparr>"
  let ?d' = "\<lparr>pdf_id = 1, original_filename = ''a.pdf'', file_data = Some ?f,
        stored_sections =
          [\<lparr>ss_title = ''alpha beta gamma delta epsilon zeta'',
            ss_content = ''alpha beta gamma delta epsilon zeta'',
            ss_page = 1, ss_index = 0, ss_embedding = []\<rparr>]\<rparr>"
  let ?s = "\<lparr>p_title = ''alpha beta gamma delta epsilon zeta'',
            p_content = ''alpha beta gamma delta epsilon zeta'', p_page = 1, p_index = 0,
            p_embedding = [], source_pdf = ''a.pdf'', p_pdf_id = 1\<rparr>"
  let ?evs = "[Segmented 1,
       Encoded ''alpha beta gamma delta epsilon zeta. alpha beta gamma delta epsilon zeta'']"
  have pa: "process_all (\<lambda>t. Inl ''boom'') (\<lambda>d. ''/tmp/t.pdf'') [?d] = ([?d'], [?s], ?evs)"
    by (simp add: process_pdf_def cache_usable_def
      extract_sections_from_pdf_def generate_embeddings_for_sections_def embed_section_def
      save_embeddings_to_db_def of_extracted_def
      extract_text_with_structure_def try_body_def basename_def after_last_def
      get_median_font_size_def word_sizes_def np_median_def init_state_def process_line_def
      py_strip_def is_space_def is_title_def is_bold_def font_size_of_def lower_def lower_char_def upper_letters_def lower_letters_def
      py_split_def endswith_def close_section_def title_string_def section_text_def)
  have ne: "[?s] \<noteq> []" by simp
  have q: "(\<lambda>t. Inr [1]) (''Task: '' @ ''summarise'') = (Inr [1] :: string + embedding)" by simp
  have cs: "\<forall>s \<in> set [?s]. p_embedding s \<noteq> [] \<longrightarrow>
               (\<exists>r. (\<lambda>a b. Inr 0.5) (p_embedding s) [1::real] = (Inr r :: string + real))"
    by simp
  from embedding_failure_not_fatal [OF refl pa ne q cs, where k = 5 and secs = "[]",
      THEN conjunct2, THEN conjunct2, THEN conjunct2]
  obtain scored where
    sc: "score_all (\<lambda>a b. Inr 0.5) [1] [?s] = Inr scored"
    and r: "process_pdfs_with_ml True (\<lambda>t. Inl ''boom'') (\<lambda>t. Inr [1]) (\<lambda>a b. Inr 0.5)
              (\<lambda>d. ''/tmp/t.pdf'') (Inr [?d]) ''summarise'' 5 =
              (Insights
                 (map insight_card (zip [0 ..< length (top_sections 5 scored)] (top_sections 5 scored)))
                 \<lparr>job_to_be_done = ''summarise'', input_documents = map original_filename [?d],
                  total_sections_processed = length [?s],
                  top_insights_returned = length (top_sections 5 scored)\<rparr>,
               [?d'], ?evs)"
    by blast
  from sc have "scored = [(?s, 0)]" by simp
  with r show ?thesis
    by (simp add: top_sections_def py_prefix_def insight_card_def truncate300_def)
qed

subsection \<open>Reuse of stored sections\<close>

text \<open>
  Claim C8, as stated, fails: a document whose stored sections are only partly embedded
  and whose file data is missing is neither reused nor segmented again; it is skipped.
\<close>

theorem partial_cache_without_file_data:
  "process_pdf (\<lambda>t. Inr [1]) (\<lambda>d. ''/tmp/t.pdf'')
     \<lparr>pdf_id = 1, original_filename = ''a.pdf'', file_data = None,
      stored_sections =
        [\<lparr>ss_title = ''One'', ss_content = ''first'', ss_page = 1, ss_index = 0, ss_embedding = [1]\<rparr>,
         \<lparr>ss_title = ''Two'', ss_content = ''second'', ss_page = 2, ss_index = 1, ss_embedding = []\<rparr>]\<rparr>
   = (\<lparr>pdf_id = 1, original_filename = ''a.pdf'', file_data = None,
       stored_sections =
        [\<lparr>ss_title = ''One'', ss_content = ''first'', ss_page = 1, ss_index = 0, ss_embedding = [1]\<rparr>,
         \<lparr>ss_title = ''Two'', ss_content = ''second'', ss_page = 2, ss_index = 1, ss_embedding = []\<rparr>]\<rparr>,
      [], [])"
  by (simp add: process_pdf_def cache_usable_def)

lemma process_pdf_usable:
  "cache_usable d \<Longrightarrow> process_pdf enc tp d = (d, map (of_stored d) (stored_sections d), [])"
  by (simp add: process_pdf_def)

lemma saved_view:
  "map (section_view \<circ> of_stored (save_embeddings_to_db d swe))
       (stored_sections (save_embeddings_to_db d swe)) =
   map (section_view \<circ> of_extracted d) swe"
proof -
  have "map (\<lambda>x. section_view (of_stored (save_embeddings_to_db d swe)
               (case x of (idx, s, e) \<Rightarrow>
                  \<lparr>ss_title = ex_title s, ss_content = ex_content s, ss_page = ex_page s,
                   ss_index = idx, ss_embedding = e\<rparr>))) (zip [0 ..< length swe] swe)
        = map (\<lambda>x. section_view (of_extracted d (snd x))) (zip [0 ..< length swe] swe)"
    by (rule map_cong) (auto simp: section_view_def of_stored_def of_extracted_def save_embeddings_to_db_def)
  also have "\<dots> = map (section_view \<circ> of_extracted d) swe"
    by (rule nth_equalityI) auto
  finally show ?thesis by (simp add: save_embeddings_to_db_def comp_def)
qed

lemma process_pdf_rerun:
  assumes "process_pdf enc tp d = (d', secs, evs)" and "cache_usable d'"
  shows "\<exists>secs'. process_pdf enc' tp' d' = (d', secs', []) \<and>
           map section_view secs' = map section_view secs"
proof (cases "cache_usable d")
  case True
  with assms show ?thesis by (auto simp: process_pdf_def)
next
  case False
  show ?thesis
  proof (cases "file_data d")
    case None
    with False assms show ?thesis by (auto simp: process_pdf_def)
  next
    case (Some f)
    let ?swe = "generate_embeddings_for_sections enc (extract_sections_from_pdf (tp d) f)"
    from False Some assms(1) have d': "d' = save_embeddings_to_db d ?swe"
      and secs: "secs = map (of_extracted d) ?swe"
      by (simp_all add: process_pdf_def Let_def)
    from assms(2) have "process_pdf enc' tp' d' = (d', map (of_stored d') (stored_sections d'), [])"
      by (rule process_pdf_usable)
    moreover have "map section_view (map (of_stored d') (stored_sections d')) = map section_view secs"
      using saved_view [of d ?swe] by (simp add: d' secs)
    ultimately show ?thesis by blast
  qed
qed

lemma process_all_rerun:
  "process_all enc tp pdfs = (pdfs1, all1, ev1) \<Longrightarrow> \<forall>d \<in> set pdfs1. cache_usable d \<Longrightarrow>
   \<exists>all2. process_all enc' tp' pdfs1 = (pdfs1, all2, []) \<and>
          map section_view all2 = map section_view all1"
proof (induction pdfs arbitrary: pdfs1 all1 ev1)
  case Nil
  then show ?case by simp
next
  case (Cons d ds)
  obtain d' secs evs where pd: "process_pdf enc tp d = (d', secs, evs)"
    by (cases "process_pdf enc tp d") auto
  obtain ds' secs' evs' where pa: "process_all enc tp ds = (ds', secs', evs')"
    by (cases "process_all enc tp ds") auto
  from Cons.prems(1) pd pa have p1: "pdfs1 = d' # ds'" and a1: "all1 = secs @ secs'" by simp_all
  with Cons.prems(2) have u: "cache_usable d'" and us: "\<forall>x \<in> set ds'. cache_usable x" by simp_all
  from process_pdf_rerun [OF pd u] obtain s2 where
    r1: "process_pdf enc' tp' d' = (d', s2, [])" "map section_view s2 = map section_view secs"
    by blast
  from Cons.IH [OF pa us] obtain a2 where
    r2: "process_all enc' tp' ds' = (ds', a2, [])" "map section_view a2 = map section_view secs'"
    by blast
  from r1 r2 p1 a1 show ?case by simp
qed

lemma process_all_names:
  "process_all enc tp pdfs = (pdfs1, all1, ev1) \<Longrightarrow>
   map original_filename pdfs1 = map original_filename pdfs"
proof (induction pdfs arbitrary: pdfs1 all1 ev1)
  case Nil
  then show ?case by simp
next
  case (Cons d ds)
  obtain d' secs evs where pd: "process_pdf enc tp d = (d', secs, evs)"
    by (cases "process_pdf enc tp d") auto
  obtain ds' secs' evs' where pa: "process_all enc tp ds = (ds', secs', evs')"
    by (cases "process_all enc tp ds") auto
  from pd have "original_filename d' = original_filename d"
    by (auto simp: process_pdf_def save_embeddings_to_db_def Let_def split: if_splits option.splits)
  with Cons.IH [OF pa] Cons.prems pd pa show ?case by auto
qed

lemma scored_view_pair: "scored_view (s, r) = (section_view s, r)"
  by (simp add: scored_view_def)

lemma score_all_view:
  "map section_view xs = map section_view ys \<Longrightarrow>
   map_sum id (map scored_view) (score_all cos_sim q xs) =
   map_sum id (map scored_view) (score_all cos_sim q ys)"
proof (induction xs arbitrary: ys)
  case Nil
  then show ?case by simp
next
  case (Cons x xs)
  then obtain y ys' where ys: "ys = y # ys'" by (cases ys) auto
  with Cons.prems have v: "section_view x = section_view y"
    and vs: "map section_view xs = map section_view ys'" by simp_all
  from v have e: "p_embedding x = p_embedding y" by (simp add: section_view_def)
  from Cons.IH [OF vs] have ih: "map_sum id (map scored_view) (score_all cos_sim q xs) =
   map_sum id (map scored_view) (score_all cos_sim q ys')" .
  let ?h = "if p_embedding y \<noteq> [] then cos_sim (p_embedding y) q else Inr 0.0"
  have sx: "score_all cos_sim q (x # xs) =
      (case ?h of Inl e \<Rightarrow> Inl e
       | Inr r \<Rightarrow> (case score_all cos_sim q xs of Inl e \<Rightarrow> Inl e | Inr rest \<Rightarrow> Inr ((x, r) # rest)))"
    using e by simp
  have sy: "score_all cos_sim q (y # ys') =
      (case ?h of Inl e \<Rightarrow> Inl e
       | Inr r \<Rightarrow> (case score_all cos_sim q ys' of Inl e \<Rightarrow> Inl e | Inr rest \<Rightarrow> Inr ((y, r) # rest)))"
    by simp
  show ?case
    unfolding ys sx sy using ih v
    by (cases ?h; cases "score_all cos_sim q xs"; cases "score_all cos_sim q ys'")
       (simp_all add: scored_view_pair)
qed

lemma insort_key_view:
  "insort_key (\<lambda>x. - snd x) (scored_view a) (map scored_view xs) =
   map scored_view (insort_key (\<lambda>x. - snd x) a xs)"
  by (induction xs) (auto simp: scored_view_def)

lemma sort_key_view:
  "sort_key (\<lambda>x. - snd x) (map scored_view xs) = map scored_view (sort_key (\<lambda>x. - snd x) xs)"
  by (induction xs) (simp_all add: insort_key_view)

lemma py_prefix_map: "py_prefix k (map g xs) = map g (py_prefix k xs)"
  by (simp add: py_prefix_def take_map)

lemma top_sections_view:
  "map scored_view (top_sections k xs) =
   py_prefix k (sort_key (\<lambda>x. - snd x) (map scored_view xs))"
  by (simp add: top_sections_def sort_key_view py_prefix_map)

lemma cards_view:
  "map card_view (map insight_card (zip [0 ..< length tops] tops)) =
   map (\<lambda>(i, v, r). (fst (snd (snd (snd (snd v)))), fst v, truncate300 (fst (snd v)),
                      fst (snd (snd v)), i + 1, r))
       (zip [0 ..< length (map scored_view tops)] (map scored_view tops))"
proof -
  have "map card_view (map insight_card (zip [0 ..< length tops] tops)) =
        map (\<lambda>x. (\<lambda>(i, v, r). (fst (snd (snd (snd (snd v)))), fst v, truncate300 (fst (snd v)),
                      fst (snd (snd v)), i + 1, r)) (fst x, scored_view (snd x)))
            (zip [0 ..< length tops] tops)"
    by (auto simp: card_view_def insight_card_def scored_view_def section_view_def split: prod.splits)
  also have "\<dots> = map (\<lambda>(i, v, r). (fst (snd (snd (snd (snd v)))), fst v, truncate300 (fst (snd v)),
                      fst (snd (snd v)), i + 1, r))
       (zip [0 ..< length tops] (map scored_view tops))"
    by (simp add: zip_map2 comp_def split_def)
  finally show ?thesis by simp
qed


lemma insights_view:
  assumes "map scored_view sc2 = map scored_view sc1"
  shows "map card_view (map insight_card (zip [0 ..< length (top_sections k sc2)] (top_sections k sc2)))
       = map card_view (map insight_card (zip [0 ..< length (top_sections k sc1)] (top_sections k sc1)))
       \<and> length (top_sections k sc2) = length (top_sections k sc1)"
proof -
  from assms have t: "map scored_view (top_sections k sc2) = map scored_view (top_sections k sc1)"
    by (simp add: top_sections_view)
  then have "length (map scored_view (top_sections k sc2)) = length (map scored_view (top_sections k sc1))"
    by simp
  then have l: "length (top_sections k sc2) = length (top_sections k sc1)" by simp
  have "map card_view (map insight_card (zip [0 ..< length (top_sections k sc2)] (top_sections k sc2)))
      = map (\<lambda>(i, v, r). (fst (snd (snd (snd (snd v)))), fst v, truncate300 (fst (snd v)),
                      fst (snd (snd v)), i + 1, r))
       (zip [0 ..< length (map scored_view (top_sections k sc2))] (map scored_view (top_sections k sc2)))"
    by (rule cards_view)
  also have "\<dots> = map (\<lambda>(i, v, r). (fst (snd (snd (snd (snd v)))), fst v, truncate300 (fst (snd v)),
                      fst (snd (snd v)), i + 1, r))
       (zip [0 ..< length (map scored_view (top_sections k sc1))] (map scored_view (top_sections k sc1)))"
    by (simp only: t)
  also have "\<dots> = map card_view (map insight_card (zip [0 ..< length (top_sections k sc1)] (top_sections k sc1)))"
    by (rule cards_view [symmetric])
  finally show ?thesis using l by simp
qed

lemma pipeline_rerun:
  assumes run: "process_pdfs_with_ml True enc menc cos_sim tp (Inr pdfs) job k = (out1, pdfs1, ev1)"
    and full: "\<forall>d \<in> set pdfs1. cache_usable d"
  shows "\<exists>out2. process_pdfs_with_ml True enc' menc cos_sim tp' (Inr pdfs1) job k = (out2, pdfs1, [])
           \<and> outcome_view out2 = outcome_view out1"
proof -
  obtain p1 a1 e1 where pa: "process_all enc tp pdfs = (p1, a1, e1)"
    by (cases "process_all enc tp pdfs") auto
  from run pa have p1: "p1 = pdfs1"
    by (auto simp: process_pdfs_with_ml_def Let_def split: if_splits sum.splits)
  from process_all_rerun [OF pa] full p1 obtain a2 where
    pa2: "process_all enc' tp' pdfs1 = (pdfs1, a2, [])"
    and v: "map section_view a2 = map section_view a1"
    by blast
  from v have "length (map section_view a2) = length (map section_view a1)" by simp
  then have len: "length a2 = length a1" by simp
  from process_all_names [OF pa] p1
  have names: "map original_filename pdfs1 = map original_filename pdfs" by simp
  show ?thesis
  proof (cases "a1 = []")
    case True
    with len have "a2 = []" by simp
    with True run pa pa2 show ?thesis
      by (auto simp: process_pdfs_with_ml_def outcome_view_def)
  next
    case False
    with len have ne2: "a2 \<noteq> []" by auto
    show ?thesis
    proof (cases "menc (''Task: '' @ job)")
      case (Inl e)
      with False ne2 run pa pa2 show ?thesis
        by (auto simp: process_pdfs_with_ml_def outcome_view_def)
    next
      case (Inr qe)
      from score_all_view [OF v, of cos_sim qe]
      have sv: "map_sum id (map scored_view) (score_all cos_sim qe a2) =
                map_sum id (map scored_view) (score_all cos_sim qe a1)" .
      show ?thesis
      proof (cases "score_all cos_sim qe a1")
        case e1: (Inl e)
        with sv have "score_all cos_sim qe a2 = Inl e"
          by (cases "score_all cos_sim qe a2") simp_all
        with e1 Inr False ne2 run pa pa2 show ?thesis
          by (auto simp: process_pdfs_with_ml_def outcome_view_def)
      next
        case s1: (Inr sc1)
        with sv obtain sc2 where s2: "score_all cos_sim qe a2 = Inr sc2"
          and vv: "map scored_view sc2 = map scored_view sc1"
          by (cases "score_all cos_sim qe a2") simp_all
        from insights_view [OF vv, of k] s1 s2 Inr False ne2 run pa pa2 len names
        show ?thesis
          by (auto simp: process_pdfs_with_ml_def outcome_view_def Let_def)
      qed
    qed
  qed
qed

text \<open>
  Claim C8, amended. The stored sections of a document are reused, with no segmentation
  and no encoder call, exactly when there is at least one and each has a non-empty
  embedding. Otherwise, when the file data is present, the document is segmented again,
  every extracted section is encoded again and the stored sections are replaced; when
  the file data is missing, the document is skipped. A second run on documents that all
  have usable stored sections after a first run changes nothing in the store, calls
  neither the segmenter nor the section encoder, and gives the same outcome as the first
  run: the same cards in the same order with the same scores, up to the card ids.
\<close>

theorem cache_reuse_all_or_nothing:
  "(cache_usable d \<longleftrightarrow>
      stored_sections d \<noteq> [] \<and> (\<forall>s \<in> set (stored_sections d). ss_embedding s \<noteq> [])) \<and>
   (cache_usable d \<longrightarrow>
      process_pdf enc tp d = (d, map (of_stored d) (stored_sections d), [])) \<and>
   (\<not> cache_usable d \<and> file_data d = Some f \<longrightarrow>
      process_pdf enc tp d =
        (save_embeddings_to_db d
           (generate_embeddings_for_sections enc (extract_sections_from_pdf (tp d) f)),
         map (of_extracted d)
           (generate_embeddings_for_sections enc (extract_sections_from_pdf (tp d) f)),
         Segmented (pdf_id d) #
           map (\<lambda>s. Encoded (ex_text s)) (extract_sections_from_pdf (tp d) f))) \<and>
   (\<not> cache_usable d \<and> file_data d = None \<longrightarrow> process_pdf enc tp d = (d, [], [])) \<and>
   (process_pdfs_with_ml True enc menc cos_sim tp (Inr pdfs) job k = (out1, pdfs1, ev1) \<and>
    (\<forall>x \<in> set pdfs1. cache_usable x) \<longrightarrow>
      (\<exists>out2. process_pdfs_with_ml True enc' menc cos_sim tp' (Inr pdfs1) job k = (out2, pdfs1, []) \<and>
              outcome_view out2 = outcome_view out1))"
proof (intro conjI impI)
  show "cache_usable d \<longleftrightarrow>
      stored_sections d \<noteq> [] \<and> (\<forall>s \<in> set (stored_sections d). ss_embedding s \<noteq> [])"
    by (simp add: cache_usable_def list_all_iff)
  show "process_pdf enc tp d = (d, map (of_stored d) (stored_sections d), [])" if "cache_usable d"
    using that by (rule process_pdf_usable)
  show "process_pdf enc tp d =
        (save_embeddings_to_db d
           (generate_embeddings_for_sections enc (extract_sections_from_pdf (tp d) f)),
         map (of_extracted d)
           (generate_embeddings_for_sections enc (extract_sections_from_pdf (tp d) f)),
         Segmented (pdf_id d) #
           map (\<lambda>s. Encoded (ex_text s)) (extract_sections_from_pdf (tp d) f))"
    if "\<not> cache_usable d \<and> file_data d = Some f"
    using that by (simp add: process_pdf_def Let_def)
  show "process_pdf enc tp d = (d, [], [])" if "\<not> cache_usable d \<and> file_data d = None"
    using that by (simp add: process_pdf_def)
  show "\<exists>out2. process_pdfs_with_ml True enc' menc cos_sim tp' (Inr pdfs1) job k = (out2, pdfs1, []) \<and>
              outcome_view out2 = outcome_view out1"
    if h: "process_pdfs_with_ml True enc menc cos_sim tp (Inr pdfs) job k = (out1, pdfs1, ev1) \<and>
      (\<forall>x \<in> set pdfs1. cache_usable x)"
    using pipeline_rerun [of enc menc cos_sim tp pdfs job k out1 pdfs1 ev1 enc' tp'] h by blast
qed

theorem cache_reuse_all_or_nothing_witness:
  "snd (process_pdfs_with_ml True (\<lambda>t. Inl ''not called'') (\<lambda>t. Inr [1]) (\<lambda>a b. Inr 0.5)
          (\<lambda>d. ''/tmp/other.pdf'')
          (Inr [\<lparr>pdf_id = 1, original_filename = ''a.pdf'',
                 file_data = Some (Inr [\<lparr>extract_words = Inr [\<lparr>word_size = Some 10\<rparr>],
                                         extract_text_lines = Inr
                                           [\<lparr>line_text = ''alpha beta gamma delta epsilon zeta'',
                                             chars = [\<lparr>fontname = Some ''Arial'', char_size = Some 10\<rparr>]\<rparr>]\<rparr>]),
                 stored_sections =
                   [\<lparr>ss_title = ''alpha beta gamma delta epsilon zeta'',
                     ss_content = ''alpha beta gamma delta epsilon zeta'',
                     ss_page = 1, ss_index = 0, ss_embedding = [1]\<rparr>]\<rparr>])
          ''summarise'' 5)
   = ([\<lparr>pdf_id = 1, original_filename = ''a.pdf'',
        file_data = Some (Inr [\<lparr>extract_words = Inr [\<lparr>word_size = Some 10\<rparr>],
                                extract_text_lines = Inr
                                  [\<lparr>line_text = ''alpha beta gamma delta epsilon zeta'',
                                    chars = [\<lparr>fontname = Some ''Arial'', char_size = Some 10\<rparr>]\<rparr>]\<rparr>]),
        stored_sections =
          [\<lparr>ss_title = ''alpha beta gamma delta epsilon zeta'',
            ss_content = ''alpha beta gamma delta epsilon zeta'',
            ss_page = 1, ss_index = 0, ss_embedding = [1]\<rparr>]\<rparr>], []) \<and>
   outcome_view (fst (process_pdfs_with_ml True (\<lambda>t. Inl ''not called'') (\<lambda>t. Inr [1]) (\<lambda>a b. Inr 0.5)
          (\<lambda>d. ''/tmp/other.pdf'')
          (Inr [\<lparr>pdf_id = 1, original_filename = ''a.pdf'',
                 file_data = Some (Inr [\<lparr>extract_words = Inr [\<lparr>word_size = Some 10\<rparr>],
                                         extract_text_lines = Inr
                                           [\<lparr>line_text = ''alpha beta gamma delta epsilon zeta'',
                                             chars = [\<lparr>fontname = Some ''Arial'', char_size = Some 10\<rparr>]\<rparr>]\<rparr>]),
                 stored_sections =
                   [\<lparr>ss_title = ''alpha beta gamma delta epsilon zeta'',
                     ss_content = ''alpha beta gamma delta epsilon zeta'',
                     ss_page = 1, ss_index = 0, ss_embedding = [1]\<rparr>]\<rparr>])
          ''summarise'' 5))
   = Inr ([(''a.pdf'', ''alpha beta gamma delta epsilon zeta'',
            ''alpha beta gamma delta epsilon zeta'', 1, 1, 0.5)],
          \<lparr>job_to_be_done = ''summarise'', input_documents = [''a.pdf''],
           total_sections_processed = 1, top_insights_returned = 1\<rparr>)"
proof -
  let ?f = "Inr [\<lparr>extract_words = Inr [\<lparr>word_size = Some 10\<rparr>],
                                    extract_text_lines = Inr
                                      [\<lparr>line_text = ''alpha beta gamma delta epsilon zeta'',
                                        chars = [\<lparr>fontname = Some ''Arial'', char_size = Some 10\<rparr>]\<rparr>]\<rparr>]"
  let ?d = "\<lparr>pdf_id = 1, original_filename = ''a.pdf'', file_data = Some ?f, stored_sections = []\<rparr>"
  let ?d' = "\<lparr>pdf_id = 1, original_filename = ''a.pdf'', file_data = Some ?f,
        stored_sections =
          [\<lparr>ss_title = ''alpha beta gamma delta epsilon zeta'',
            ss_content = ''alpha beta gamma delta epsilon zeta'',
            ss_page = 1, ss_index = 0, ss_embedding = [1]\<rparr>]\<rparr>"
  let ?out1 = "Insights
        [\<lparr>card_id = (1, 0), pdfName = ''a.pdf'',
          sectionTitle = ''alpha beta gamma delta epsilon zeta'',
          card_content = ''alpha beta gamma delta epsilon zeta'',
          pageNumber = 1, importanceRank = 1, relevanceScore = 0.5\<rparr>]
        \<lparr>job_to_be_done = ''summarise'', input_documents = [''a.pdf''],
         total_sections_processed = 1, top_insights_returned = 1\<rparr>"
  let ?evs = "[Segmented 1,
       Encoded ''alpha beta gamma delta epsilon zeta. alpha beta gamma delta epsilon zeta'']"
  have run1: "process_pdfs_with_ml True (\<lambda>t. Inr [1]) (\<lambda>t. Inr [1]) (\<lambda>a b. Inr 0.5)
                (\<lambda>d. ''/tmp/t.pdf'') (Inr [?d]) ''summarise'' 5 = (?out1, [?d'], ?evs)"
    by (simp add: process_pdfs_with_ml_def process_pdf_def cache_usable_def
      extract_sections_from_pdf_def generate_embeddings_for_sections_def embed_section_def
      save_embeddings_to_db_def of_extracted_def
      extract_text_with_structure_def try_body_def basename_def after_last_def
      get_median_font_size_def word_sizes_def np_median_def init_state_def process_line_def
      py_strip_def is_space_def is_title_def is_bold_def font_size_of_def lower_def lower_char_def upper_letters_def lower_letters_def
      py_split_def endswith_def close_section_def title_string_def section_text_def
      top_sections_def py_prefix_def insight_card_def truncate300_def)
  have full: "\<forall>x \<in> set [?d']. cache_usable x" by (simp add: cache_usable_def)
  note w = cache_reuse_all_or_nothing [where enc = "\<lambda>t. Inr [1]" and menc = "\<lambda>t. Inr [1]"
      and cos_sim = "\<lambda>a b. Inr 0.5" and tp = "\<lambda>d. ''/tmp/t.pdf''" and pdfs = "[?d]"
      and job = "''summarise''" and k = 5 and ?out1.0 = ?out1 and ?pdfs1.0 = "[?d']" and ?ev1.0 = ?evs
      and enc' = "\<lambda>t. Inl ''not called''" and tp' = "\<lambda>d. ''/tmp/other.pdf''",
      THEN conjunct2, THEN conjunct2, THEN conjunct2, THEN conjunct2]
  from w [THEN mp, OF conjI [OF run1 full]] obtain out2 where
    r2: "process_pdfs_with_ml True (\<lambda>t. Inl ''not called'') (\<lambda>t. Inr [1]) (\<lambda>a b. Inr 0.5)
           (\<lambda>d. ''/tmp/other.pdf'') (Inr [?d']) ''summarise'' 5 = (out2, [?d'], [])"
    and v: "outcome_view out2 = outcome_view ?out1"
    by blast
  have "outcome_view ?out1 = Inr ([(''a.pdf'', ''alpha beta gamma delta epsilon zeta'',
            ''alpha beta gamma delta epsilon zeta'', 1, 1, 0.5)],
          \<lparr>job_to_be_done = ''summarise'', input_documents = [''a.pdf''],
           total_sections_processed = 1, top_insights_returned = 1\<rparr>)"
    by (simp add: outcome_view_def card_view_def)
  with v r2 show ?thesis by simp
qed

end
